theory Spec2Isabelle
  imports Main
begin

section \<open>Exceptions\<close>

text \<open>
  The program is Python: a call either returns or raises. A raise is the left
  injection of a sum. \<open>ValueError\<close> is the exception pathlib raises; \<open>Raised\<close> stands
  for any other exception coming out of an external collaborator (the remote
  service, the operating system), carrying the text that \<open>str(e)\<close> gives.
\<close>

datatype exn = ValueError string | Raised string

fun str_exn :: "exn \<Rightarrow> string" where
  "str_exn (ValueError m) = m"
| "str_exn (Raised m) = m"

section \<open>The library functions the program calls on paths\<close>

text \<open>
  \<open>main.py\<close> builds paths with \<open>os.path.join\<close> and \<open>pathlib.Path\<close>. Both belong to
  the Python standard library; they are written out here after CPython 3.11 on a
  POSIX system (\<open>posixpath.join\<close>, \<open>PurePosixPath\<close>): a path is a root
  (\<open>''''\<close>, \<open>''/''\<close> or \<open>''//''\<close>) and the list of its components, from which empty
  components and \<open>''.''\<close> have been dropped. A string is a list of characters and
  \<open>length\<close> counts them, as Python's \<open>len\<close> counts code points.
\<close>

fun split_sep :: "string \<Rightarrow> string list" where
  "split_sep [] = [[]]"
| "split_sep (c # cs) =
     (if c = CHR ''/'' then [] # split_sep cs
      else (case split_sep cs of [] \<Rightarrow> [[c]] | w # ws \<Rightarrow> (c # w) # ws))"

fun join_sep :: "string list \<Rightarrow> string" where
  "join_sep [] = []"
| "join_sep [x] = x"
| "join_sep (x # y # ys) = x @ CHR ''/'' # join_sep (y # ys)"

definition startswith :: "string \<Rightarrow> string \<Rightarrow> bool" where
  "startswith s pre = (take (length pre) s = pre)"

definition endswith :: "string \<Rightarrow> string \<Rightarrow> bool" where
  "endswith s suf = (drop (length s - length suf) s = suf)"

definition os_path_join :: "string \<Rightarrow> string \<Rightarrow> string" where
  "os_path_join a b =
     (if startswith b ''/'' then b
      else if a = [] \<or> endswith a ''/'' then a @ b
      else a @ ''/'' @ b)"

record path =
  root :: string
  parts :: "string list"

definition lstrip_sep :: "string \<Rightarrow> string" where
  "lstrip_sep s = dropWhile (\<lambda>c. c = CHR ''/'') s"

definition splitroot :: "string \<Rightarrow> string \<times> string" where
  "splitroot part =
     (if part \<noteq> [] \<and> hd part = CHR ''/'' then
        (let stripped_part = lstrip_sep part in
         if length part - length stripped_part = 2 then (''//'', stripped_part)
         else (''/'', stripped_part))
      else ([], part))"

definition Path :: "string \<Rightarrow> path" where
  "Path s =
     (case splitroot s of (r, rel) \<Rightarrow>
        \<lparr>root = r, parts = filter (\<lambda>x. x \<noteq> [] \<and> x \<noteq> ''.'') (split_sep rel)\<rparr>)"

definition str_path :: "path \<Rightarrow> string" where
  "str_path p = (let s = root p @ join_sep (parts p) in if s = [] then ''.'' else s)"

definition name :: "path \<Rightarrow> string" where
  "name p = (if parts p = [] then [] else last (parts p))"

fun rfind :: "char \<Rightarrow> string \<Rightarrow> nat option" where
  "rfind c [] = None"
| "rfind c (x # xs) =
     (case rfind c xs of
        Some i \<Rightarrow> Some (Suc i)
      | None \<Rightarrow> if x = c then Some 0 else None)"

definition suffix :: "path \<Rightarrow> string" where
  "suffix p =
     (case rfind (CHR ''.'') (name p) of
        None \<Rightarrow> []
      | Some i \<Rightarrow> if 0 < i \<and> i < length (name p) - 1 then drop i (name p) else [])"

definition stem :: "path \<Rightarrow> string" where
  "stem p =
     (case rfind (CHR ''.'') (name p) of
        None \<Rightarrow> name p
      | Some i \<Rightarrow> if 0 < i \<and> i < length (name p) - 1 then take i (name p) else name p)"

definition py_repr :: "string \<Rightarrow> string" where
  \<comment> \<open>\<open>repr\<close> of a string that holds no quote, backslash or control character\<close>
  "py_repr s = [CHR 0x27] @ s @ [CHR 0x27]"

definition repr_path :: "path \<Rightarrow> string" where
  "repr_path p = ''PosixPath('' @ py_repr (str_path p) @ '')''"

definition with_name :: "path \<Rightarrow> string \<Rightarrow> exn + path" where
  "with_name p n =
     (if name p = [] then Inl (ValueError (repr_path p @ '' has an empty name''))
      else if n = [] \<or> last n = CHR ''/'' \<or> root (Path n) \<noteq> [] \<or> length (parts (Path n)) \<noteq> 1
      then Inl (ValueError (''Invalid name '' @ py_repr n))
      else Inr (p\<lparr>parts := butlast (parts p) @ [n]\<rparr>))"

definition with_stem :: "path \<Rightarrow> string \<Rightarrow> exn + path" where
  "with_stem p s = with_name p (s @ suffix p)"

definition with_suffix :: "path \<Rightarrow> string \<Rightarrow> exn + path" where
  "with_suffix p sfx =
     (if CHR ''/'' \<in> set sfx then Inl (ValueError (''Invalid suffix '' @ py_repr sfx))
      else if (sfx \<noteq> [] \<and> \<not> startswith sfx ''.'') \<or> sfx = ''.''
      then Inl (ValueError (''Invalid suffix '' @ py_repr sfx))
      else if name p = [] then Inl (ValueError (repr_path p @ '' has an empty name''))
      else (let old_suffix = suffix p;
                n = (if old_suffix = [] then name p @ sfx
                     else take (length (name p) - length old_suffix) (name p) @ sfx)
            in Inr (p\<lparr>parts := butlast (parts p) @ [n]\<rparr>)))"

section \<open>The path sanitizer\<close>

definition sanitize_path :: "string \<Rightarrow> exn + path" where
  "sanitize_path p =
     (let stem0 = stem (Path p);
          stem1 = (if length stem0 > 250 then take 245 stem0 else stem0)
      in with_stem (Path p) stem1)"

section \<open>The download protocol\<close>

text \<open>
  The program runs against the local filesystem and the remote service. The
  filesystem is a map from the string of a path to what stands there, a file with
  its bytes or a directory; the two failure logs are the lists of the lines appended
  to them; \<open>submitted_jobs\<close> are the jobs handed to the job executor; \<open>calls\<close> records,
  in order, the calls a download job makes on its collaborators.

  What the collaborators answer is not in the program: it is the parameter \<open>env\<close>. A
  request may fail to be built, each \<open>next_chunk\<close> may deliver bytes or raise, and
  opening, renaming, creating directories and appending to a log may fail for a
  reason of the operating system. A chunk stream is finite: the model covers the
  runs in which the downloader reports \<open>done\<close> or raises after finitely many chunks.
\<close>

type_synonym bytes = string

datatype node = File bytes | Dir

datatype request = ExportMedia string string | GetMedia string

datatype chunk_stream = ChunkError string | LastChunk bytes | Chunk bytes chunk_stream

datatype call =
    Exists string
  | BuildRequest request
  | OpenWb string
  | NextChunk
  | Rename string string

type_synonym job = "string \<times> string \<times> string"

record env =
  request_error :: "request \<Rightarrow> string option"
  media :: "request \<Rightarrow> chunk_stream"
  open_error :: "string \<Rightarrow> string option"
  rename_error :: "string \<Rightarrow> string \<Rightarrow> string option"
  makedirs_error :: "string \<Rightarrow> string option"
  log_error :: "string \<Rightarrow> string option"

record world =
  fs :: "string \<rightharpoonup> node"
  failed_downloads_txt :: "string list"
  failed_folders_txt :: "string list"
  submitted_jobs :: "job list"
  calls :: "call list"

definition folder_mime :: string where
  "folder_mime = ''application/vnd.google-apps.folder''"

definition workspace_prefix :: string where
  "workspace_prefix = ''application/vnd.google-apps.''"

definition record_call :: "call \<Rightarrow> world \<Rightarrow> world" where
  "record_call c w = w\<lparr>calls := calls w @ [c]\<rparr>"

text \<open>
  \<open>os.path.exists\<close> is true of a file and of a directory. The current directory and
  the roots are directories that always exist.
\<close>

definition os_path_exists :: "string \<Rightarrow> world \<Rightarrow> bool \<times> world" where
  "os_path_exists p w = (fs w p \<noteq> None, record_call (Exists p) w)"

definition is_dir :: "(string \<rightharpoonup> node) \<Rightarrow> string \<Rightarrow> bool" where
  "is_dir f k \<longleftrightarrow> k = ''.'' \<or> k = ''/'' \<or> k = ''//'' \<or> f k = Some Dir"

fun is_file :: "node option \<Rightarrow> bool" where
  "is_file (Some (File b)) = True"
| "is_file _ = False"

definition parent :: "path \<Rightarrow> path" where
  "parent p = p\<lparr>parts := butlast (parts p)\<rparr>"

definition build_request :: "env \<Rightarrow> request \<Rightarrow> world \<Rightarrow> (exn + unit) \<times> world" where
  "build_request env rq w =
     (case request_error env rq of
        Some e \<Rightarrow> (Inl (Raised e), record_call (BuildRequest rq) w)
      | None \<Rightarrow> (Inr (), record_call (BuildRequest rq) w))"

text \<open>
  Opening a file for writing fails when the operating system says so, when its
  directory does not exist and when a directory stands at its path; otherwise it
  creates the file or truncates it.
\<close>

definition open_fault :: "env \<Rightarrow> (string \<rightharpoonup> node) \<Rightarrow> path \<Rightarrow> exn option" where
  "open_fault env f p =
     (case open_error env (str_path p) of
        Some e \<Rightarrow> Some (Raised e)
      | None \<Rightarrow>
          if \<not> is_dir f (str_path (parent p))
          then Some (Raised (''[Errno 2] No such file or directory: '' @ py_repr (str_path p)))
          else if f (str_path p) = Some Dir
          then Some (Raised (''[Errno 21] Is a directory: '' @ py_repr (str_path p)))
          else None)"

definition open_wb :: "env \<Rightarrow> path \<Rightarrow> world \<Rightarrow> (exn + unit) \<times> world" where
  "open_wb env p w =
     (case open_fault env (fs w) p of
        Some e \<Rightarrow> (Inl e, record_call (OpenWb (str_path p)) w)
      | None \<Rightarrow> (Inr (), (record_call (OpenWb (str_path p)) w)\<lparr>fs := (fs w)(str_path p \<mapsto> File [])\<rparr>))"

definition fh_write :: "string \<Rightarrow> bytes \<Rightarrow> world \<Rightarrow> world" where
  "fh_write p b w =
     w\<lparr>fs := (fs w)(p \<mapsto> File (case fs w p of Some (File c) \<Rightarrow> c @ b | _ \<Rightarrow> b))\<rparr>"

fun next_chunks :: "string \<Rightarrow> chunk_stream \<Rightarrow> world \<Rightarrow> (exn + unit) \<times> world" where
  "next_chunks p (ChunkError e) w = (Inl (Raised e), record_call NextChunk w)"
| "next_chunks p (LastChunk b) w = (Inr (), fh_write p b (record_call NextChunk w))"
| "next_chunks p (Chunk b rest) w = next_chunks p rest (fh_write p b (record_call NextChunk w))"

text \<open>
  Renaming fails when the operating system says so, when the source does not exist,
  and when one of source and target is a file and the other a directory; otherwise
  what stood at the source stands at the target.
\<close>

definition rename_fault :: "env \<Rightarrow> (string \<rightharpoonup> node) \<Rightarrow> string \<Rightarrow> string \<Rightarrow> exn option" where
  "rename_fault env f src dst =
     (case rename_error env src dst of
        Some e \<Rightarrow> Some (Raised e)
      | None \<Rightarrow>
          (case f src of
             None \<Rightarrow> Some (Raised (''[Errno 2] No such file or directory: ''
                                    @ py_repr src @ '' -> '' @ py_repr dst))
           | Some (File b) \<Rightarrow>
               if f dst = Some Dir
               then Some (Raised (''[Errno 21] Is a directory: ''
                                    @ py_repr src @ '' -> '' @ py_repr dst))
               else None
           | Some Dir \<Rightarrow>
               if is_file (f dst)
               then Some (Raised (''[Errno 20] Not a directory: ''
                                    @ py_repr src @ '' -> '' @ py_repr dst))
               else None))"

definition os_rename :: "env \<Rightarrow> string \<Rightarrow> string \<Rightarrow> world \<Rightarrow> (exn + unit) \<times> world" where
  "os_rename env src dst w =
     (case rename_fault env (fs w) src dst of
        Some e \<Rightarrow> (Inl e, record_call (Rename src dst) w)
      | None \<Rightarrow>
          (Inr (), (record_call (Rename src dst) w)\<lparr>fs := (fs w)(src := None, dst := fs w src)\<rparr>))"

text \<open>
  The failure recorder. \<open>write_failed_downloads\<close> opens the log for appending, writes
  one line and closes it; these are its steps, in the order of the source. The lock
  \<open>WRITE_LOCK\<close> of the module has two operations, and a step for each is part of the
  type so that a trace can say where they occur. Opening the log can fail, and then
  the call raises and nothing is appended.
\<close>

datatype log_step =
    Acquire_WRITE_LOCK
  | Release_WRITE_LOCK
  | Open_append string
  | Write_line string
  | Close_file

definition failure_line :: "string \<Rightarrow> string \<Rightarrow> string \<Rightarrow> string" where
  "failure_line ident nm err = ident @ '','' @ nm @ '','' @ err @ [CHR 0x0A]"

definition write_failed_downloads_steps :: "string \<Rightarrow> string \<Rightarrow> string \<Rightarrow> log_step list" where
  "write_failed_downloads_steps file_id file_name err =
     [Open_append ''./failed_downloads.txt'',
      Write_line (failure_line file_id file_name err),
      Close_file]"

definition write_failed_folder_steps :: "string \<Rightarrow> string \<Rightarrow> string \<Rightarrow> log_step list" where
  "write_failed_folder_steps folder_id folder_name err =
     [Open_append ''./failed_folders.txt'',
      Write_line (failure_line folder_id folder_name err),
      Close_file]"

fun apply_log_step :: "string list \<Rightarrow> log_step \<Rightarrow> string list" where
  "apply_log_step ls (Write_line l) = ls @ [l]"
| "apply_log_step ls _ = ls"

definition write_failed_downloads ::
  "env \<Rightarrow> string \<Rightarrow> string \<Rightarrow> string \<Rightarrow> world \<Rightarrow> (exn + unit) \<times> world" where
  "write_failed_downloads env file_id file_name err w =
     (case log_error env ''./failed_downloads.txt'' of
        Some e \<Rightarrow> (Inl (Raised e), w)
      | None \<Rightarrow>
          (Inr (), w\<lparr>failed_downloads_txt :=
                       foldl apply_log_step (failed_downloads_txt w)
                         (write_failed_downloads_steps file_id file_name err)\<rparr>))"

text \<open>
  \<open>download_body\<close> is the body of the \<open>try\<close> statement of \<open>download_file\<close>;
  \<open>download_file\<close> adds the handler, and an exception that the handler raises leaves
  \<open>download_file\<close>. The source assigns the result of \<open>with_suffix\<close> to the variable
  \<open>sanitized_path\<close> again; here it is \<open>final_path\<close>.
\<close>

definition fetch_request :: "string \<Rightarrow> string \<Rightarrow> request" where
  "fetch_request file_id mime_type =
     (if startswith mime_type workspace_prefix then ExportMedia file_id ''application/pdf''
      else GetMedia file_id)"

definition final_path :: "path \<Rightarrow> string \<Rightarrow> exn + path" where
  "final_path sanitized_path mime_type =
     (if startswith mime_type workspace_prefix then with_suffix sanitized_path ''.pdf''
      else Inr sanitized_path)"

definition download_body ::
  "env \<Rightarrow> string \<Rightarrow> string \<Rightarrow> string \<Rightarrow> world \<Rightarrow> (exn + unit) \<times> world" where
  "download_body env file_id file_path mime_type w =
     (case sanitize_path file_path of
        Inl e \<Rightarrow> (Inl e, w)
      | Inr sanitized_path \<Rightarrow>
          (let temp_path = Path (str_path sanitized_path @ ''.temp'') in
           case os_path_exists (str_path sanitized_path) w of
             (True, w1) \<Rightarrow> (Inr (), w1)
           | (False, w1) \<Rightarrow>
               (case build_request env (fetch_request file_id mime_type) w1 of
                  (Inl e, w2) \<Rightarrow> (Inl e, w2)
                | (Inr u, w2) \<Rightarrow>
                    (case final_path sanitized_path mime_type of
                       Inl e \<Rightarrow> (Inl e, w2)
                     | Inr final \<Rightarrow>
                         (case open_wb env temp_path w2 of
                            (Inl e, w3) \<Rightarrow> (Inl e, w3)
                          | (Inr u, w3) \<Rightarrow>
                              (case next_chunks (str_path temp_path)
                                      (media env (fetch_request file_id mime_type)) w3 of
                                 (Inl e, w4) \<Rightarrow> (Inl e, w4)
                               | (Inr u, w4) \<Rightarrow>
                                   os_rename env (str_path temp_path) (str_path final) w4))))))"

definition download_file ::
  "env \<Rightarrow> string \<Rightarrow> string \<Rightarrow> string \<Rightarrow> world \<Rightarrow> (exn + unit) \<times> world" where
  "download_file env file_id file_path mime_type w =
     (case download_body env file_id file_path mime_type w of
        (Inr u, w1) \<Rightarrow> (Inr (), w1)
      | (Inl e, w1) \<Rightarrow> write_failed_downloads env file_id file_path (str_exn e) w1)"

section \<open>The traversal driver\<close>

text \<open>
  What \<open>service.files().list(...).execute()\<close> answers for a folder is a sequence of
  pages: a call raises, or returns the items of a page together with a token for the
  next page, or returns the items of the last page. An item carries its id, name and
  MIME type and, for a folder, the answers the service gives when that folder is
  listed. The remote tree is finite, so the recursion of \<open>list_all_files\<close> follows
  its structure. The \<open>print\<close> calls, and the arguments \<open>folder_id\<close> and \<open>indent\<close> that
  only they and the query use, are left out.

  \<open>os.makedirs\<close> with \<open>exist_ok\<close> creates the directory and every missing directory
  above it, and leaves existing directories alone. It fails when the operating
  system says so and when a file stands at the path or at a path above it.
\<close>

datatype item = Item (item_id: string) (item_name: string) (mimeType: string) (children: listing)
  and listing = ListError string | LastPage "item list" | NextPage "item list" listing

definition dir_keys :: "path \<Rightarrow> string list" where
  "dir_keys p = map (\<lambda>n. str_path (p\<lparr>parts := take n (parts p)\<rparr>)) [1..<Suc (length (parts p))]"

definition makedirs_fault :: "env \<Rightarrow> (string \<rightharpoonup> node) \<Rightarrow> string \<Rightarrow> exn option" where
  "makedirs_fault env f s =
     (case makedirs_error env s of
        Some e \<Rightarrow> Some (Raised e)
      | None \<Rightarrow>
          if dir_keys (Path s) \<noteq> [] \<and> is_file (f (last (dir_keys (Path s))))
          then Some (Raised (''[Errno 17] File exists: '' @ py_repr s))
          else if \<exists>k \<in> set (dir_keys (Path s)). is_file (f k)
          then Some (Raised (''[Errno 20] Not a directory: '' @ py_repr s))
          else None)"

definition os_makedirs :: "env \<Rightarrow> string \<Rightarrow> world \<Rightarrow> (exn + unit) \<times> world" where
  "os_makedirs env s w =
     (case makedirs_fault env (fs w) s of
        Some e \<Rightarrow> (Inl e, w)
      | None \<Rightarrow>
          (Inr (), w\<lparr>fs := (\<lambda>k. if k \<in> set (dir_keys (Path s)) then Some Dir else fs w k)\<rparr>))"

definition write_failed_folder ::
  "env \<Rightarrow> string \<Rightarrow> string \<Rightarrow> string \<Rightarrow> world \<Rightarrow> (exn + unit) \<times> world" where
  "write_failed_folder env folder_id folder_name err w =
     (case log_error env ''./failed_folders.txt'' of
        Some e \<Rightarrow> (Inl (Raised e), w)
      | None \<Rightarrow>
          (Inr (), w\<lparr>failed_folders_txt :=
                       foldl apply_log_step (failed_folders_txt w)
                         (write_failed_folder_steps folder_id folder_name err)\<rparr>))"

definition leaf_file_path :: "string \<Rightarrow> item \<Rightarrow> string" where
  "leaf_file_path local_path it =
     os_path_join local_path
       (if startswith (mimeType it) workspace_prefix then item_name it @ ''.pdf''
        else item_name it)"

text \<open>
  \<open>job_executor.submit_job(download_file, ...)\<close> hands the job to the job executor;
  here the job is recorded, and the executor has its own section.
\<close>

definition submit_download :: "item \<Rightarrow> string \<Rightarrow> world \<Rightarrow> world" where
  "submit_download it file_path w =
     w\<lparr>submitted_jobs := submitted_jobs w @ [(item_id it, file_path, mimeType it)]\<rparr>"

fun list_all_files :: "env \<Rightarrow> listing \<Rightarrow> string \<Rightarrow> world \<Rightarrow> (exn + unit) \<times> world"
  and for_items :: "env \<Rightarrow> item list \<Rightarrow> string \<Rightarrow> world \<Rightarrow> (exn + unit) \<times> world"
  and visit_item :: "env \<Rightarrow> item \<Rightarrow> string \<Rightarrow> world \<Rightarrow> (exn + unit) \<times> world"
where
  "list_all_files env (ListError e) local_path w = (Inl (Raised e), w)"
| "list_all_files env (LastPage items) local_path w = for_items env items local_path w"
| "list_all_files env (NextPage items later) local_path w =
     (case for_items env items local_path w of
        (Inl e, w1) \<Rightarrow> (Inl e, w1)
      | (Inr u, w1) \<Rightarrow> list_all_files env later local_path w1)"
| "for_items env [] local_path w = (Inr (), w)"
| "for_items env (it # rest) local_path w =
     (case visit_item env it local_path w of
        (Inl e, w1) \<Rightarrow> (Inl e, w1)
      | (Inr u, w1) \<Rightarrow> for_items env rest local_path w1)"
| "visit_item env (Item iid nm mt sub) local_path w =
     (if mt = folder_mime then
        (case os_makedirs env (os_path_join local_path nm) w of
           (Inl e, w1) \<Rightarrow> (Inl e, w1)
         | (Inr u, w1) \<Rightarrow>
             (case list_all_files env sub (os_path_join local_path nm) w1 of
                (Inl e, w2) \<Rightarrow> write_failed_folder env iid local_path (str_exn e) w2
              | (Inr u, w2) \<Rightarrow> (Inr (), w2)))
      else (Inr (), submit_download (Item iid nm mt sub)
                      (leaf_file_path local_path (Item iid nm mt sub)) w))"

text \<open>
  The jobs that a traversal submitted, run one after the other in the order of
  submission: the schedule of a pool in which each job ends before the next starts.
\<close>

fun run_jobs :: "env \<Rightarrow> job list \<Rightarrow> world \<Rightarrow> world" where
  "run_jobs env [] w = w"
| "run_jobs env ((file_id, file_path, mime_type) # js) w =
     run_jobs env js (snd (download_file env file_id file_path mime_type w))"

section \<open>The job executor\<close>

text \<open>
  A \<open>Future\<close> is its handle, a number: \<open>executor.submit\<close> creates handle \<open>created\<close>
  and counts up. \<open>finished\<close> is the set of handles whose job has completed; worker
  threads add to it, nothing removes from it. \<open>ThreadPoolExecutor\<close> raises
  \<open>ValueError\<close> when \<open>max_workers\<close> is not positive.

  \<open>concurrent.futures.wait\<close> blocks the caller. A call that is still blocked in the
  current state is the result \<open>None\<close>; it returns once worker steps have changed the
  state. With \<open>FIRST_COMPLETED\<close> it returns the futures of its argument that are
  finished as soon as there is one (and at once for an empty argument); with
  \<open>ALL_COMPLETED\<close> it returns when all of them are finished.
\<close>

record job_executor =
  max_workers :: int
  futures :: "nat list"
  created :: nat
  finished :: "nat set"

definition JobExecutor :: "int \<Rightarrow> exn + job_executor" where
  "JobExecutor mw =
     (if mw \<le> 0 then Inl (ValueError ''max_workers must be greater than 0'')
      else Inr \<lparr>max_workers = mw, futures = [], created = 0, finished = {}\<rparr>)"

definition wait_first_completed :: "job_executor \<Rightarrow> nat list \<Rightarrow> nat list option" where
  "wait_first_completed x futs =
     (let done_fs = filter (\<lambda>f. f \<in> finished x) futs
      in if done_fs \<noteq> [] \<or> futs = [] then Some done_fs else None)"

definition wait_all_completed :: "job_executor \<Rightarrow> nat list \<Rightarrow> nat list option" where
  "wait_all_completed x futs =
     (if \<forall>f \<in> set futs. f \<in> finished x then Some futs else None)"

definition executor_submit :: "job_executor \<Rightarrow> nat \<times> job_executor" where
  "executor_submit x = (created x, x\<lparr>created := Suc (created x)\<rparr>)"

definition submit_job :: "job_executor \<Rightarrow> (nat \<times> job_executor) option" where
  "submit_job x =
     (if int (length (futures x)) \<ge> max_workers x then
        (case wait_first_completed x (futures x) of
           None \<Rightarrow> None
         | Some done_fs \<Rightarrow>
             (let x1 = x\<lparr>futures := filter (\<lambda>f. f \<notin> set done_fs) (futures x)\<rparr>;
                  (future, x2) = executor_submit x1
              in Some (future, x2\<lparr>futures := futures x2 @ [future]\<rparr>)))
      else
        (let (future, x2) = executor_submit x
         in Some (future, x2\<lparr>futures := futures x2 @ [future]\<rparr>)))"

definition wait_completion :: "job_executor \<Rightarrow> job_executor option" where
  "wait_completion x =
     (case wait_all_completed x (futures x) of None \<Rightarrow> None | Some done_fs \<Rightarrow> Some x)"

definition job_completes :: "nat \<Rightarrow> job_executor \<Rightarrow> job_executor" where
  "job_completes h x = x\<lparr>finished := insert h (finished x)\<rparr>"

text \<open>
  The states a job executor of capacity \<open>mw\<close> can be in: it is created, the control
  thread calls \<open>submit_job\<close> (a step only when the call returns), and at any time a
  worker thread completes a job that was submitted and has not completed.
\<close>

inductive reachable :: "int \<Rightarrow> job_executor \<Rightarrow> bool" for mw :: int where
  created: "JobExecutor mw = Inr x \<Longrightarrow> reachable mw x"
| submitted: "reachable mw x \<Longrightarrow> submit_job x = Some (h, x') \<Longrightarrow> reachable mw x'"
| completed: "reachable mw x \<Longrightarrow> h < created x \<Longrightarrow> h \<notin> finished x
              \<Longrightarrow> reachable mw (job_completes h x)"

definition in_flight :: "job_executor \<Rightarrow> nat set" where
  "in_flight x = set (filter (\<lambda>h. h \<notin> finished x) [0..<created x])"

text \<open>The invariant of the reachable states.\<close>

definition executor_inv :: "int \<Rightarrow> job_executor \<Rightarrow> bool" where
  "executor_inv mw x \<longleftrightarrow>
     max_workers x = mw \<and> 0 < mw \<and> distinct (futures x)
     \<and> (\<forall>f \<in> set (futures x). f < created x)
     \<and> (\<forall>h < created x. h \<notin> set (futures x) \<longrightarrow> h \<in> finished x)
     \<and> int (length (futures x)) \<le> mw"

text \<open>
  Two threads that run their steps concurrently produce one of the interleavings of
  the two step sequences. A step is tagged with the thread that takes it. A trace
  keeps the appends exclusive when no thread opens the log, or takes any other step,
  while another thread has the log open; \<open>owner\<close> is the thread that has it open.
\<close>

fun interleavings :: "'a list \<Rightarrow> 'a list \<Rightarrow> 'a list list" where
  "interleavings [] ys = [ys]"
| "interleavings xs [] = [xs]"
| "interleavings (x # xs) (y # ys) =
     map ((#) x) (interleavings xs (y # ys)) @ map ((#) y) (interleavings (x # xs) ys)"

definition thread_steps :: "nat \<Rightarrow> log_step list \<Rightarrow> (nat \<times> log_step) list" where
  "thread_steps tid steps = map (Pair tid) steps"

fun exclusive :: "nat option \<Rightarrow> (nat \<times> log_step) list \<Rightarrow> bool" where
  "exclusive owner [] = True"
| "exclusive owner ((tid, Open_append f) # tr) = (owner = None \<and> exclusive (Some tid) tr)"
| "exclusive owner ((tid, Close_file) # tr) = (owner = Some tid \<and> exclusive None tr)"
| "exclusive owner ((tid, s) # tr) = ((owner = None \<or> owner = Some tid) \<and> exclusive owner tr)"

section \<open>Notions used to state the results\<close>

text \<open>
  A path is well formed when it is one a parse can produce: its root is one of the
  three roots and no component is empty, is \<open>''.''\<close> or holds a separator.
\<close>

definition wf_path :: "path \<Rightarrow> bool" where
  "wf_path p \<longleftrightarrow>
     (root p = [] \<or> root p = ''/'' \<or> root p = ''//'')
     \<and> (\<forall>x \<in> set (parts p). x \<noteq> [] \<and> x \<noteq> ''.'' \<and> CHR ''/'' \<notin> set x)"

text \<open>
  Of a chunk stream: the error with which it ends, if it ends with one; the bytes it
  delivers before it ends; and the \<open>next_chunk\<close> calls it takes.
\<close>

fun stream_error :: "chunk_stream \<Rightarrow> string option" where
  "stream_error (ChunkError e) = Some e"
| "stream_error (LastChunk b) = None"
| "stream_error (Chunk b rest) = stream_error rest"

fun stream_written :: "chunk_stream \<Rightarrow> bytes" where
  "stream_written (ChunkError e) = []"
| "stream_written (LastChunk b) = b"
| "stream_written (Chunk b rest) = b @ stream_written rest"

fun chunk_calls :: "chunk_stream \<Rightarrow> call list" where
  "chunk_calls (ChunkError e) = [NextChunk]"
| "chunk_calls (LastChunk b) = [NextChunk]"
| "chunk_calls (Chunk b rest) = NextChunk # chunk_calls rest"

text \<open>
  What a traversal is to do, written down from the remote tree alone, without state
  and without exceptions: page after page and entry after entry, a folder is created,
  its listing is walked as far as it answers, and if it ended with an error one
  failure line is due; a leaf is submitted. Whether an entry's listing failed has no
  influence on the entries after it.
\<close>

fun listing_error :: "listing \<Rightarrow> string option" where
  "listing_error (ListError e) = Some e"
| "listing_error (LastPage items) = None"
| "listing_error (NextPage items later) = listing_error later"


datatype event = Mkdir string | FolderFailed string | Submit job

fun trace_listing :: "string \<Rightarrow> listing \<Rightarrow> event list"
  and trace_items :: "string \<Rightarrow> item list \<Rightarrow> event list"
  and trace_item :: "string \<Rightarrow> item \<Rightarrow> event list"
where
  "trace_listing lp (ListError e) = []"
| "trace_listing lp (LastPage items) = trace_items lp items"
| "trace_listing lp (NextPage items later) = trace_items lp items @ trace_listing lp later"
| "trace_items lp [] = []"
| "trace_items lp (it # rest) = trace_item lp it @ trace_items lp rest"
| "trace_item lp (Item iid nm mt sub) =
     (if mt = folder_mime then
        Mkdir (os_path_join lp nm) # trace_listing (os_path_join lp nm) sub
          @ (case listing_error sub of
               Some e \<Rightarrow> [FolderFailed (failure_line iid lp e)]
             | None \<Rightarrow> [])
      else [Submit (iid,
                    os_path_join lp (if startswith mt workspace_prefix then nm @ ''.pdf'' else nm),
                    mt)])"

fun dirs_of :: "event list \<Rightarrow> string list" where
  "dirs_of [] = []"
| "dirs_of (Mkdir d # es) = d # dirs_of es"
| "dirs_of (e # es) = dirs_of es"

fun failures_of :: "event list \<Rightarrow> string list" where
  "failures_of [] = []"
| "failures_of (FolderFailed l # es) = l # failures_of es"
| "failures_of (e # es) = failures_of es"

fun jobs_of :: "event list \<Rightarrow> job list" where
  "jobs_of [] = []"
| "jobs_of (Submit j # es) = j # jobs_of es"
| "jobs_of (e # es) = jobs_of es"

definition add_dirs :: "(string \<rightharpoonup> node) \<Rightarrow> string list \<Rightarrow> (string \<rightharpoonup> node)" where
  "add_dirs f ds = (\<lambda>k. if \<exists>d \<in> set ds. k \<in> set (dir_keys (Path d)) then Some Dir else f k)"

definition apply_trace :: "event list \<Rightarrow> world \<Rightarrow> world" where
  "apply_trace tr w =
     w\<lparr>fs := add_dirs (fs w) (dirs_of tr),
       failed_folders_txt := failed_folders_txt w @ failures_of tr,
       submitted_jobs := submitted_jobs w @ jobs_of tr\<rparr>"

text \<open>
  Environments and worlds for the examples: no collaborator fails; every fetch
  delivers two bytes and then raises; the failure logs cannot be opened; an empty
  destination, and one in which \<open>main\<close> has created \<open>./test\<close>.
\<close>

definition quiet_env :: env where
  "quiet_env = \<lparr>request_error = (\<lambda>r. None), media = (\<lambda>r. LastChunk ''x''),
     open_error = (\<lambda>p. None), rename_error = (\<lambda>s d. None), makedirs_error = (\<lambda>p. None),
     log_error = (\<lambda>p. None)\<rparr>"

definition failing_env :: env where
  "failing_env = quiet_env\<lparr>media := (\<lambda>r. Chunk ''ab'' (ChunkError ''connection reset''))\<rparr>"

definition no_log_env :: env where
  "no_log_env = failing_env\<lparr>log_error := (\<lambda>p. Some ''[Errno 13] Permission denied'')\<rparr>"

definition world0 :: world where
  "world0 = \<lparr>fs = Map.empty, failed_downloads_txt = [], failed_folders_txt = [],
     submitted_jobs = [], calls = []\<rparr>"

definition test_world :: world where
  "test_world = world0\<lparr>fs := [''test'' \<mapsto> Dir]\<rparr>"

text \<open>
  A call of \<open>download_file\<close> has logged a failure when it returned without raising,
  the download failure log has grown by exactly the line of that failure, and the
  filesystem is the given one.
\<close>

definition failure_logged ::
  "string \<Rightarrow> string \<Rightarrow> exn \<Rightarrow> (string \<rightharpoonup> node) \<Rightarrow> world \<Rightarrow> (exn + unit) \<times> world \<Rightarrow> bool" where
  "failure_logged file_id file_path ex f w r \<longleftrightarrow>
     fst r = Inr ()
     \<and> failed_downloads_txt (snd r)
         = failed_downloads_txt w @ [failure_line file_id file_path (str_exn ex)]
     \<and> fs (snd r) = f"

section \<open>Facts about the path library\<close>

lemma split_sep_not_Nil: "split_sep s \<noteq> []"
  by (induction s) (auto split: list.splits)

lemma split_sep_no_sep: "x \<in> set (split_sep s) \<Longrightarrow> CHR ''/'' \<notin> set x"
  by (induction s arbitrary: x) (auto split: if_splits list.splits)

lemma split_sep_id: "CHR ''/'' \<notin> set s \<Longrightarrow> split_sep s = [s]"
  by (induction s) auto

lemma split_sep_append:
  "CHR ''/'' \<notin> set t \<Longrightarrow>
   split_sep (s @ t) = butlast (split_sep s) @ [last (split_sep s) @ t]"
proof (induction s)
  case Nil
  then show ?case by (simp add: split_sep_id)
next
  case (Cons c s)
  then show ?case
    using split_sep_not_Nil [of s]
    by (cases "split_sep s") (auto split: list.splits)
qed

lemma last_split_sep_append:
  "CHR ''/'' \<notin> set t \<Longrightarrow> last (split_sep (s @ t)) = last (split_sep s) @ t"
  by (simp add: split_sep_append)

lemma parts_Path: "x \<in> set (parts (Path s)) \<Longrightarrow> x \<noteq> [] \<and> x \<noteq> ''.'' \<and> CHR ''/'' \<notin> set x"
  by (auto simp: Path_def split: prod.splits dest: split_sep_no_sep)

lemma name_Path:
  assumes "name (Path s) \<noteq> []"
  shows "name (Path s) \<noteq> ''.''" and "CHR ''/'' \<notin> set (name (Path s))"
proof -
  from assms have "parts (Path s) \<noteq> []" by (auto simp: name_def)
  then have "name (Path s) \<in> set (parts (Path s))" by (simp add: name_def)
  then show "name (Path s) \<noteq> ''.''" and "CHR ''/'' \<notin> set (name (Path s))"
    using parts_Path by blast+
qed

lemma Path_component:
  assumes "c \<noteq> []" "c \<noteq> ''.''" "CHR ''/'' \<notin> set c"
  shows "Path c = \<lparr>root = [], parts = [c]\<rparr>"
proof -
  from assms have "hd c \<noteq> CHR ''/''" by (cases c) auto
  then have "splitroot c = ([], c)" by (simp add: splitroot_def)
  with assms show ?thesis by (simp add: Path_def split_sep_id)
qed

lemma rfind_None: "rfind c s = None \<longleftrightarrow> c \<notin> set s"
  by (induction s) (auto split: option.splits)

lemma rfind_Some: "rfind c s = Some i \<Longrightarrow> i < length s \<and> s ! i = c \<and> c \<notin> set (drop (Suc i) s)"
  by (induction s arbitrary: i) (auto split: option.splits if_splits simp: rfind_None)

lemma rfind_append_last:
  "c \<notin> set e \<Longrightarrow> rfind c (a @ c # e) = Some (length a)"
  by (induction a) (auto simp: rfind_None split: option.splits)

lemma stem_suffix: "stem p @ suffix p = name p"
  by (simp add: stem_def suffix_def split: option.splits)

lemma with_name_component:
  assumes "name p \<noteq> []" "n \<noteq> []" "n \<noteq> ''.''" "CHR ''/'' \<notin> set n"
  shows "with_name p n = Inr (p\<lparr>parts := butlast (parts p) @ [n]\<rparr>)"
proof -
  from assms have "last n \<noteq> CHR ''/''" by (metis last_in_set)
  with assms show ?thesis by (simp add: with_name_def Path_component)
qed

lemma with_name_same: "name p \<noteq> [] \<Longrightarrow> p\<lparr>parts := butlast (parts p) @ [name p]\<rparr> = p"
  by (auto simp: name_def split: if_splits)

lemma suffix_shape:
  assumes "suffix p \<noteq> []"
  shows "\<exists>e. suffix p = CHR ''.'' # e \<and> e \<noteq> [] \<and> CHR ''.'' \<notin> set e \<and> stem p \<noteq> []"
proof -
  from assms obtain i where i: "rfind (CHR ''.'') (name p) = Some i" "0 < i" "i < length (name p) - 1"
    by (auto simp: suffix_def split: option.splits if_splits)
  then have s: "suffix p = drop i (name p)" and t: "stem p = take i (name p)"
    by (simp_all add: suffix_def stem_def)
  from rfind_Some [OF i(1)] have r: "i < length (name p)" "name p ! i = CHR ''.''"
    "CHR ''.'' \<notin> set (drop (Suc i) (name p))" by simp_all
  from r(1) r(2) have "drop i (name p) = CHR ''.'' # drop (Suc i) (name p)"
    by (metis Cons_nth_drop_Suc)
  moreover from i(3) have "drop (Suc i) (name p) \<noteq> []" by simp
  moreover from i(2) r(1) have "take i (name p) \<noteq> []" by auto
  ultimately show ?thesis using s t r(3) by simp
qed

lemma stem_subset: "set (stem p) \<subseteq> set (name p)"
  by (metis stem_suffix set_append Un_upper1)

lemma suffix_subset: "set (suffix p) \<subseteq> set (name p)"
  by (metis stem_suffix set_append Un_upper2)

lemma name_parts_update [simp]: "name (p\<lparr>parts := xs @ [n]\<rparr>) = n"
  by (simp add: name_def)

lemma truncated_stem_suffix:
  assumes "suffix p \<noteq> []" "0 < k" "k \<le> length (stem p)"
  shows "stem (p\<lparr>parts := xs @ [take k (stem p) @ suffix p]\<rparr>) = take k (stem p)"
    and "suffix (p\<lparr>parts := xs @ [take k (stem p) @ suffix p]\<rparr>) = suffix p"
proof -
  from suffix_shape [OF assms(1)] obtain e where
    e: "suffix p = CHR ''.'' # e" "e \<noteq> []" "CHR ''.'' \<notin> set e" by blast
  let ?a = "take k (stem p)"
  have r: "rfind (CHR ''.'') (?a @ CHR ''.'' # e) = Some (length ?a)"
    using e(3) by (rule rfind_append_last)
  have l: "length ?a = k" using assms(3) by simp
  show "stem (p\<lparr>parts := xs @ [?a @ suffix p]\<rparr>) = ?a"
    using r l assms(2) e by (simp add: stem_def)
  show "suffix (p\<lparr>parts := xs @ [?a @ suffix p]\<rparr>) = suffix p"
    using r l assms(2) e by (simp add: suffix_def)
qed

lemma sanitize_path_Inr:
  assumes "name (Path p) \<noteq> []"
  shows "sanitize_path p =
           Inr (if 250 < length (stem (Path p))
                then (Path p)\<lparr>parts := butlast (parts (Path p))
                                   @ [take 245 (stem (Path p)) @ suffix (Path p)]\<rparr>
                else Path p)"
proof (cases "250 < length (stem (Path p))")
  case True
  let ?n = "take 245 (stem (Path p)) @ suffix (Path p)"
  from True have len: "245 \<le> length ?n" by simp
  have "?n \<noteq> []"
  proof
    assume "?n = []"
    then have "length ?n = 0" by (simp only: list.size)
    with len show False by linarith
  qed
  moreover have "?n \<noteq> ''.''"
  proof
    assume "?n = ''.''"
    then have "length ?n = 1" by (simp only: list.size One_nat_def)
    with len show False by linarith
  qed
  moreover have "CHR ''/'' \<notin> set ?n"
    using name_Path(2) [OF assms] stem_subset [of "Path p"] suffix_subset [of "Path p"]
    by (auto dest: in_set_takeD)
  ultimately have "with_name (Path p) ?n = Inr ((Path p)\<lparr>parts := butlast (parts (Path p)) @ [?n]\<rparr>)"
    using assms by (intro with_name_component)
  with True show ?thesis by (simp add: sanitize_path_def with_stem_def Let_def)
next
  case False
  have "with_name (Path p) (name (Path p)) = Inr (Path p)"
    using with_name_component [OF assms assms name_Path [OF assms]] with_name_same [OF assms]
    by simp
  with False show ?thesis by (simp add: sanitize_path_def with_stem_def Let_def stem_suffix)
qed

section \<open>Paths and their strings\<close>

lemma splitroot_root: "fst (splitroot s) = [] \<or> fst (splitroot s) = ''/'' \<or> fst (splitroot s) = ''//''"
  by (simp add: splitroot_def Let_def)

lemma wf_Path: "wf_path (Path s)"
proof -
  obtain r rel where sr: "splitroot s = (r, rel)" by (cases "splitroot s")
  with splitroot_root [of s] have "r = [] \<or> r = ''/'' \<or> r = ''//''" by simp
  moreover have "root (Path s) = r" using sr by (simp add: Path_def)
  moreover have "\<forall>x \<in> set (parts (Path s)). x \<noteq> [] \<and> x \<noteq> ''.'' \<and> CHR ''/'' \<notin> set x"
    using parts_Path by blast
  ultimately show ?thesis unfolding wf_path_def by blast
qed

lemma join_sep_snoc: "xs \<noteq> [] \<Longrightarrow> join_sep (xs @ [y]) = join_sep xs @ CHR ''/'' # y"
  by (induction xs rule: join_sep.induct) auto

lemma join_sep_last_append:
  "xs \<noteq> [] \<Longrightarrow> join_sep (butlast xs @ [last xs @ t]) = join_sep xs @ t"
  by (induction xs rule: join_sep.induct) auto

lemma split_sep_Cons_sep: "CHR ''/'' \<notin> set x \<Longrightarrow> split_sep (x @ CHR ''/'' # r) = x # split_sep r"
  by (induction x) auto

lemma split_sep_join_sep:
  "xs \<noteq> [] \<Longrightarrow> \<forall>x \<in> set xs. CHR ''/'' \<notin> set x \<Longrightarrow> split_sep (join_sep xs) = xs"
  by (induction xs rule: join_sep.induct) (auto simp: split_sep_id split_sep_Cons_sep)

lemma join_sep_hd:
  "xs \<noteq> [] \<Longrightarrow> hd xs \<noteq> [] \<Longrightarrow> join_sep xs \<noteq> [] \<and> hd (join_sep xs) = hd (hd xs)"
  by (induction xs rule: join_sep.induct) auto

lemma splitroot_str:
  assumes "r = [] \<or> r = ''/'' \<or> r = ''//''" "j \<noteq> []" "hd j \<noteq> CHR ''/''"
  shows "splitroot (r @ j) = (r, j)"
proof -
  from assms(2,3) have d: "dropWhile (\<lambda>c. c = CHR ''/'') j = j" by (cases j) auto
  from assms show ?thesis
    by (auto simp: splitroot_def lstrip_sep_def d Let_def)
qed

lemma Path_str_path:
  assumes "wf_path p" "parts p \<noteq> []"
  shows "Path (str_path p) = p"
proof -
  let ?j = "join_sep (parts p)"
  from assms have h: "hd (parts p) \<noteq> []" "CHR ''/'' \<notin> set (hd (parts p))"
    by (auto simp: wf_path_def)
  with join_sep_hd [OF assms(2)] have j: "?j \<noteq> []" "hd ?j \<noteq> CHR ''/''"
    by (auto simp: hd_in_set dest: hd_in_set)
  from assms(1) have r: "root p = [] \<or> root p = ''/'' \<or> root p = ''//''" by (simp add: wf_path_def)
  have s: "str_path p = root p @ ?j" using j by (simp add: str_path_def)
  have sp: "split_sep ?j = parts p"
    using assms by (intro split_sep_join_sep) (auto simp: wf_path_def)
  have f: "filter (\<lambda>x. x \<noteq> [] \<and> x \<noteq> ''.'') (parts p) = parts p"
    using assms(1) by (auto simp: wf_path_def filter_id_conv)
  show ?thesis
    unfolding s by (simp add: Path_def splitroot_str [OF r j] sp f)
qed

lemma str_path_append:
  assumes "wf_path p" "parts p \<noteq> []"
  shows "str_path p @ t = str_path (p\<lparr>parts := butlast (parts p) @ [last (parts p) @ t]\<rparr>)"
proof -
  from assms have h: "hd (parts p) \<noteq> []" by (auto simp: wf_path_def)
  with join_sep_hd [OF assms(2)] have "join_sep (parts p) \<noteq> []" by simp
  then show ?thesis
    using assms(2) by (simp add: str_path_def join_sep_last_append)
qed

lemma temp_path_str:
  assumes "wf_path p" "parts p \<noteq> []"
  shows "str_path (Path (str_path p @ ''.temp'')) = str_path p @ ''.temp''"
proof -
  let ?q = "p\<lparr>parts := butlast (parts p) @ [last (parts p) @ ''.temp'']\<rparr>"
  have ne: "last (parts p) @ ''.temp'' \<noteq> ''.''" by simp
  from assms have "last (parts p) \<in> set (parts p)" by simp
  with assms(1) have "CHR ''/'' \<notin> set (last (parts p) @ ''.temp'')" by (auto simp: wf_path_def)
  with assms ne have "wf_path ?q" by (auto simp: wf_path_def dest: in_set_butlastD)
  moreover have "parts ?q \<noteq> []" by simp
  ultimately have "Path (str_path ?q) = ?q" by (rule Path_str_path)
  then show ?thesis using str_path_append [OF assms, of "''.temp''"] by simp
qed

lemma sanitize_path_name:
  assumes "sanitize_path fp = Inr S"
  shows "name (Path fp) \<noteq> []"
  using assms by (auto simp: sanitize_path_def with_stem_def with_name_def Let_def split: if_splits)

lemma sanitize_path_wf:
  assumes "sanitize_path fp = Inr S"
  shows "wf_path S" and "parts S \<noteq> []"
proof -
  have n: "name (Path fp) \<noteq> []" using assms by (rule sanitize_path_name)
  then have pn: "parts (Path fp) \<noteq> []" by (auto simp: name_def)
  let ?n = "take 245 (stem (Path fp)) @ suffix (Path fp)"
  have S: "S = (if 250 < length (stem (Path fp))
                then (Path fp)\<lparr>parts := butlast (parts (Path fp)) @ [?n]\<rparr> else Path fp)"
    using sanitize_path_Inr [OF n] assms by simp
  show "parts S \<noteq> []" using S pn by simp
  show "wf_path S"
  proof (cases "250 < length (stem (Path fp))")
    case False
    with S show ?thesis by (simp add: wf_Path)
  next
    case True
    then have len: "245 \<le> length ?n" by simp
    have "?n \<noteq> []"
    proof
      assume "?n = []"
      then have "length ?n = 0" by (simp only: list.size)
      with len show False by linarith
    qed
    moreover have "?n \<noteq> ''.''"
    proof
      assume "?n = ''.''"
      then have "length ?n = 1" by (simp only: list.size One_nat_def)
      with len show False by linarith
    qed
    moreover have "CHR ''/'' \<notin> set ?n"
      using name_Path(2) [OF n] stem_subset [of "Path fp"] suffix_subset [of "Path fp"]
      by (auto dest: in_set_takeD)
    ultimately show ?thesis
      using S True wf_Path [of fp] by (auto simp: wf_path_def dest: in_set_butlastD)
  qed
qed

section \<open>Facts about destination names\<close>

lemma os_path_join_ends: "\<exists>X. os_path_join a b = X @ b"
proof -
  have "os_path_join a b = [] @ b \<or> os_path_join a b = a @ b \<or> os_path_join a b = (a @ ''/'') @ b"
    by (simp add: os_path_join_def)
  then show ?thesis by blast
qed

lemma splitroot_rel_append:
  assumes "t \<noteq> []" "hd t \<noteq> CHR ''/''"
  shows "\<exists>Y. snd (splitroot (X @ t)) = Y @ t"
proof -
  from assms have d: "dropWhile (\<lambda>c. c = CHR ''/'') t = t" by (cases t) auto
  have "dropWhile (\<lambda>c. c = CHR ''/'') (X @ t) = [] @ t
      \<or> dropWhile (\<lambda>c. c = CHR ''/'') (X @ t) = dropWhile (\<lambda>c. c = CHR ''/'') X @ t"
    by (simp add: dropWhile_append d)
  then obtain Y where Y: "lstrip_sep (X @ t) = Y @ t" unfolding lstrip_sep_def by blast
  have "snd (splitroot (X @ t)) = X @ t \<or> snd (splitroot (X @ t)) = lstrip_sep (X @ t)"
    by (simp add: splitroot_def Let_def)
  with Y show ?thesis by metis
qed

lemma name_Path_append:
  assumes "CHR ''/'' \<notin> set t" "2 \<le> length t"
  shows "\<exists>n. name (Path (X @ t)) = n @ t"
proof -
  from assms(2) have t: "t \<noteq> []" by auto
  with assms(1) have "hd t \<noteq> CHR ''/''" by (metis hd_in_set)
  from splitroot_rel_append [OF t this, of X] obtain Y where Y: "snd (splitroot (X @ t)) = Y @ t"
    by blast
  let ?l = "last (split_sep Y) @ t"
  have sp: "split_sep (Y @ t) = butlast (split_sep Y) @ [?l]"
    using assms(1) by (rule split_sep_append)
  have len: "2 \<le> length ?l" using assms(2) by simp
  have "?l \<noteq> []"
  proof
    assume "?l = []"
    then have "length ?l = 0" by (simp only: list.size)
    with len show False by linarith
  qed
  moreover have "?l \<noteq> ''.''"
  proof
    assume "?l = ''.''"
    then have "length ?l = 1" by (simp only: list.size One_nat_def)
    with len show False by linarith
  qed
  ultimately have "filter (\<lambda>x. x \<noteq> [] \<and> x \<noteq> ''.'') (split_sep (Y @ t))
      = filter (\<lambda>x. x \<noteq> [] \<and> x \<noteq> ''.'') (butlast (split_sep Y)) @ [?l]"
    unfolding sp by simp
  moreover have "parts (Path (X @ t))
      = filter (\<lambda>x. x \<noteq> [] \<and> x \<noteq> ''.'') (split_sep (snd (splitroot (X @ t))))"
    by (simp add: Path_def split: prod.splits)
  ultimately have "parts (Path (X @ t))
      = filter (\<lambda>x. x \<noteq> [] \<and> x \<noteq> ''.'') (butlast (split_sep Y)) @ [?l]"
    using Y by simp
  then have "name (Path (X @ t)) = ?l" by (simp add: name_def)
  then show ?thesis by blast
qed

lemma with_suffix_pdf:
  assumes "name p \<noteq> []"
  shows "\<exists>n. with_suffix p ''.pdf'' = Inr (p\<lparr>parts := butlast (parts p) @ [n @ ''.pdf'']\<rparr>)"
proof -
  have "with_suffix p ''.pdf'' =
      Inr (p\<lparr>parts := butlast (parts p) @
             [(if suffix p = [] then name p else take (length (name p) - length (suffix p)) (name p))
              @ ''.pdf'']\<rparr>)"
    using assms by (simp add: with_suffix_def startswith_def Let_def)
  then show ?thesis by blast
qed

lemma join_sep_ends: "\<exists>pre. join_sep (xs @ [y]) = pre @ y"
proof (cases "xs = []")
  case True
  then have "join_sep (xs @ [y]) = [] @ y" by simp
  then show ?thesis by blast
next
  case False
  then have "join_sep (xs @ [y]) = (join_sep xs @ ''/'') @ y" by (simp add: join_sep_snoc)
  then show ?thesis by blast
qed

lemma endswith_append: "endswith (a @ s) s"
  by (simp add: endswith_def)

lemma str_path_ends:
  assumes "parts p = xs @ [n @ s]" "s \<noteq> []"
  shows "endswith (str_path p) s"
proof -
  from join_sep_ends [of xs "n @ s"] obtain pre where "join_sep (parts p) = pre @ n @ s"
    using assms(1) by auto
  with assms(2) have "str_path p = (root p @ pre @ n) @ s" by (simp add: str_path_def)
  then show ?thesis by (metis endswith_append)
qed

lemma workspace_final_path:
  assumes "startswith mime workspace_prefix" "sanitize_path fp = Inr S"
  shows "\<exists>final. final_path S mime = Inr final \<and> endswith (str_path final) ''.pdf''"
proof -
  from sanitize_path_wf(2) [OF assms(2)] have "name S \<noteq> []"
    using sanitize_path_wf(1) [OF assms(2)] by (auto simp: name_def wf_path_def)
  from with_suffix_pdf [OF this] obtain n where
    n: "with_suffix S ''.pdf'' = Inr (S\<lparr>parts := butlast (parts S) @ [n @ ''.pdf'']\<rparr>)" by blast
  have "endswith (str_path (S\<lparr>parts := butlast (parts S) @ [n @ ''.pdf'']\<rparr>)) ''.pdf''"
    by (rule str_path_ends [of _ "butlast (parts S)" n]) simp_all
  with n assms(1) show ?thesis by (simp add: final_path_def)
qed

lemma workspace_leaf_sanitizes:
  "\<exists>S. sanitize_path (os_path_join lp (nm @ ''.pdf'')) = Inr S"
proof -
  from os_path_join_ends [of lp "nm @ ''.pdf''"] obtain X where
    "os_path_join lp (nm @ ''.pdf'') = (X @ nm) @ ''.pdf''" by auto
  moreover from name_Path_append [of "''.pdf''" "X @ nm"] obtain n where
    "name (Path ((X @ nm) @ ''.pdf'')) = n @ ''.pdf''" by auto
  ultimately have "name (Path (os_path_join lp (nm @ ''.pdf''))) \<noteq> []" by simp
  from sanitize_path_Inr [OF this] show ?thesis by blast
qed

section \<open>Facts about the job executor\<close>

lemma submit_job_below:
  assumes "int (length (futures x)) < max_workers x"
  shows "submit_job x = Some (created x, x\<lparr>futures := futures x @ [created x], created := Suc (created x)\<rparr>)"
  using assms by (simp add: submit_job_def executor_submit_def)

lemma submit_job_at_capacity:
  assumes "max_workers x \<le> int (length (futures x))" "futures x \<noteq> []"
  shows "submit_job x =
           (if \<forall>f \<in> set (futures x). f \<notin> finished x then None
            else Some (created x,
                   x\<lparr>futures := filter (\<lambda>f. f \<notin> finished x) (futures x) @ [created x],
                     created := Suc (created x)\<rparr>))"
proof -
  have e: "filter (\<lambda>f. f \<notin> set (filter (\<lambda>f. f \<in> finished x) (futures x))) (futures x)
         = filter (\<lambda>f. f \<notin> finished x) (futures x)"
    by (rule filter_cong) auto
  show ?thesis
    using assms e
    by (auto simp: submit_job_def wait_first_completed_def executor_submit_def Let_def
        filter_empty_conv)
qed

lemma executor_inv_created: "JobExecutor mw = Inr x \<Longrightarrow> executor_inv mw x"
  by (auto simp: JobExecutor_def executor_inv_def split: if_splits)

lemma executor_inv_completed: "executor_inv mw x \<Longrightarrow> executor_inv mw (job_completes h x)"
  by (auto simp: executor_inv_def job_completes_def)

lemma length_filter_drop:
  assumes "f \<in> set xs" "\<not> P f"
  shows "length (filter P xs) < length xs"
  using assms by (induction xs) (auto simp: less_Suc_eq_le)

lemma executor_inv_submitted:
  assumes inv: "executor_inv mw x" and s: "submit_job x = Some (h, x')"
  shows "executor_inv mw x'"
proof (cases "int (length (futures x)) < max_workers x")
  case True
  with s have "x' = x\<lparr>futures := futures x @ [created x], created := Suc (created x)\<rparr>"
    by (auto simp: submit_job_below)
  with inv True show ?thesis
    by (auto simp: executor_inv_def less_Suc_eq)
next
  case False
  with inv have cap: "max_workers x \<le> int (length (futures x))" and ne: "futures x \<noteq> []"
    by (auto simp: executor_inv_def)
  from s submit_job_at_capacity [OF cap ne] obtain f where
    f: "f \<in> set (futures x)" "f \<in> finished x" and
    x': "x' = x\<lparr>futures := filter (\<lambda>f. f \<notin> finished x) (futures x) @ [created x],
               created := Suc (created x)\<rparr>"
    by (auto split: if_splits)
  from f have "length (filter (\<lambda>f. f \<notin> finished x) (futures x)) < length (futures x)"
    by (intro length_filter_drop [of f]) auto
  with inv have "int (length (filter (\<lambda>f. f \<notin> finished x) (futures x) @ [created x])) \<le> mw"
    by (simp add: executor_inv_def)
  with inv x' show ?thesis
    by (auto simp: executor_inv_def less_Suc_eq)
qed

lemma reachable_inv: "reachable mw x \<Longrightarrow> executor_inv mw x"
  by (induction rule: reachable.induct)
     (auto intro: executor_inv_created executor_inv_completed executor_inv_submitted)

lemma in_flight_tracked: "executor_inv mw x \<Longrightarrow> in_flight x \<subseteq> set (futures x)"
  by (auto simp: executor_inv_def in_flight_def)

lemma submit_job_created:
  assumes "submit_job x = Some (h, x')"
  shows "h = created x \<and> created x' = Suc (created x) \<and> finished x' = finished x"
  using assms
  by (auto simp: submit_job_def executor_submit_def Let_def split: if_splits option.splits)

lemma reachable_finished: "reachable mw x \<Longrightarrow> \<forall>h \<in> finished x. h < created x"
proof (induction rule: reachable.induct)
  case (created x)
  then show ?case by (auto simp: JobExecutor_def split: if_splits)
next
  case (submitted x h x')
  from submit_job_created [OF submitted.hyps(2)] submitted.IH show ?case by auto
next
  case (completed x h)
  then show ?case by (auto simp: job_completes_def)
qed

text \<open>
  A run with capacity 1: a job is submitted, the next \<open>submit_job\<close> finds the list
  full, the job completes, the second job is admitted and handle 0 is drained, and
  the second job completes.
\<close>

lemma run1_state0: "reachable 1 \<lparr>max_workers = 1, futures = [], created = 0, finished = {}\<rparr>"
  by (rule reachable.created) (simp add: JobExecutor_def)

lemma run1_state1: "reachable 1 \<lparr>max_workers = 1, futures = [0], created = 1, finished = {}\<rparr>"
  by (rule reachable.submitted [OF run1_state0, of 0])
     (simp add: submit_job_def executor_submit_def)

lemma run1_state2: "reachable 1 \<lparr>max_workers = 1, futures = [0], created = 1, finished = {0}\<rparr>"
  using reachable.completed [OF run1_state1, of 0] by (simp add: job_completes_def)

lemma run1_state3: "reachable 1 \<lparr>max_workers = 1, futures = [1], created = 2, finished = {0}\<rparr>"
  by (rule reachable.submitted [OF run1_state2, of 1])
     (simp add: submit_job_def executor_submit_def wait_first_completed_def)

lemma run1_state4: "reachable 1 \<lparr>max_workers = 1, futures = [1], created = 2, finished = {1, 0}\<rparr>"
  using reachable.completed [OF run1_state3, of 1] by (simp add: job_completes_def)

text \<open>A run of an executor of capacity two.\<close>

lemma run2_state0: "reachable 2 \<lparr>max_workers = 2, futures = [], created = 0, finished = {}\<rparr>"
  by (rule reachable.created) (simp add: JobExecutor_def)

lemma run2_state1: "reachable 2 \<lparr>max_workers = 2, futures = [0], created = 1, finished = {}\<rparr>"
  by (rule reachable.submitted [OF run2_state0, of 0])
     (simp add: submit_job_def executor_submit_def)

lemma run2_state2: "reachable 2 \<lparr>max_workers = 2, futures = [0, 1], created = 2, finished = {}\<rparr>"
  by (rule reachable.submitted [OF run2_state1, of 1])
     (simp add: submit_job_def executor_submit_def)

lemma run2_state3: "reachable 2 \<lparr>max_workers = 2, futures = [0, 1], created = 2, finished = {0}\<rparr>"
  using reachable.completed [OF run2_state2, of 0] by (simp add: job_completes_def)

lemma run2_state4: "reachable 2 \<lparr>max_workers = 2, futures = [0, 1], created = 2, finished = {1, 0}\<rparr>"
  using reachable.completed [OF run2_state3, of 1] by (simp add: job_completes_def)

section \<open>Facts about the traversal driver\<close>

lemma write_failed_folder_ok:
  "log_error env ''./failed_folders.txt'' = None \<Longrightarrow>
   write_failed_folder env i n e w
     = (Inr (), w\<lparr>failed_folders_txt := failed_folders_txt w @ [failure_line i n e]\<rparr>)"
  by (simp add: write_failed_folder_def write_failed_folder_steps_def)


lemma dirs_of_append [simp]: "dirs_of (a @ b) = dirs_of a @ dirs_of b"
  by (induction a rule: dirs_of.induct) auto

lemma failures_of_append [simp]: "failures_of (a @ b) = failures_of a @ failures_of b"
  by (induction a rule: failures_of.induct) auto

lemma jobs_of_append [simp]: "jobs_of (a @ b) = jobs_of a @ jobs_of b"
  by (induction a rule: jobs_of.induct) auto

lemma add_dirs_Nil [simp]: "add_dirs f [] = f"
  by (simp add: add_dirs_def)

lemma add_dirs_append: "add_dirs (add_dirs f xs) ys = add_dirs f (xs @ ys)"
  by (rule ext) (auto simp: add_dirs_def)

lemma apply_trace_Nil [simp]: "apply_trace [] w = w"
  by (simp add: apply_trace_def)

lemma apply_trace_append: "apply_trace (a @ b) w = apply_trace b (apply_trace a w)"
  by (simp add: apply_trace_def add_dirs_append)

lemma apply_trace_fields [simp]:
  "fs (apply_trace tr w) = add_dirs (fs w) (dirs_of tr)"
  "failed_folders_txt (apply_trace tr w) = failed_folders_txt w @ failures_of tr"
  "submitted_jobs (apply_trace tr w) = submitted_jobs w @ jobs_of tr"
  "failed_downloads_txt (apply_trace tr w) = failed_downloads_txt w"
  "calls (apply_trace tr w) = calls w"
  by (simp_all add: apply_trace_def)

lemma makedirs_fault_None:
  "makedirs_fault env f d = None \<longleftrightarrow>
     makedirs_error env d = None \<and> (\<forall>k \<in> set (dir_keys (Path d)). \<not> is_file (f k))"
proof (cases "makedirs_error env d")
  case (Some e)
  then show ?thesis by (simp add: makedirs_fault_def)
next
  case None
  have l: "dir_keys (Path d) \<noteq> [] \<Longrightarrow> last (dir_keys (Path d)) \<in> set (dir_keys (Path d))"
    by (rule last_in_set)
  show ?thesis
  proof (cases "\<exists>k \<in> set (dir_keys (Path d)). is_file (f k)")
    case True
    with None show ?thesis by (simp add: makedirs_fault_def)
  next
    case False
    with l have "\<not> (dir_keys (Path d) \<noteq> [] \<and> is_file (f (last (dir_keys (Path d)))))" by blast
    with False None show ?thesis by (simp add: makedirs_fault_def)
  qed
qed

lemma is_file_add_dirs:
  assumes "\<forall>d \<in> set ds. makedirs_fault env f d = None"
  shows "is_file (add_dirs f ds k) = is_file (f k)"
  using assms by (auto simp: add_dirs_def makedirs_fault_None)

lemma makedirs_fault_cong:
  assumes "\<And>k. is_file (g k) = is_file (f k)"
  shows "makedirs_fault env g d = makedirs_fault env f d"
  by (simp only: makedirs_fault_def assms)

lemma makedirs_fault_add_dirs:
  assumes "\<forall>d \<in> set ds. makedirs_fault env f d = None"
  shows "makedirs_fault env (add_dirs f ds) d' = makedirs_fault env f d'"
  by (rule makedirs_fault_cong) (rule is_file_add_dirs [OF assms])

lemma os_makedirs_ok:
  assumes "makedirs_fault env (fs w) d = None"
  shows "os_makedirs env d w = (Inr (), apply_trace [Mkdir d] w)"
proof -
  have "(\<lambda>k. if k \<in> set (dir_keys (Path d)) then Some Dir else fs w k) = add_dirs (fs w) [d]"
    by (rule ext) (simp add: add_dirs_def)
  with assms show ?thesis by (simp add: os_makedirs_def apply_trace_def)
qed

lemma os_makedirs_raises:
  "makedirs_fault env (fs w) d = Some e \<Longrightarrow> os_makedirs env d w = (Inl e, w)"
  by (simp add: os_makedirs_def)

lemma apply_trace_failed:
  "apply_trace [FolderFailed l] w = w\<lparr>failed_folders_txt := failed_folders_txt w @ [l]\<rparr>"
  by (simp add: apply_trace_def)

lemma apply_trace_submit:
  "apply_trace [Submit j] w = w\<lparr>submitted_jobs := submitted_jobs w @ [j]\<rparr>"
  by (simp add: apply_trace_def)

lemma traversal_trace:
  "log_error env ''./failed_folders.txt'' = None \<Longrightarrow>
   \<forall>d \<in> set (dirs_of (trace_listing lp l)). makedirs_fault env (fs w) d = None \<Longrightarrow>
   list_all_files env l lp w
     = ((case listing_error l of Some e \<Rightarrow> Inl (Raised e) | None \<Rightarrow> Inr ()),
        apply_trace (trace_listing lp l) w)"
  "log_error env ''./failed_folders.txt'' = None \<Longrightarrow>
   \<forall>d \<in> set (dirs_of (trace_items lp items)). makedirs_fault env (fs w) d = None \<Longrightarrow>
   for_items env items lp w = (Inr (), apply_trace (trace_items lp items) w)"
  "log_error env ''./failed_folders.txt'' = None \<Longrightarrow>
   \<forall>d \<in> set (dirs_of (trace_item lp it)). makedirs_fault env (fs w) d = None \<Longrightarrow>
   visit_item env it lp w = (Inr (), apply_trace (trace_item lp it) w)"
proof (induction env l lp w and env items lp w and env it lp w
       rule: list_all_files_for_items_visit_item.induct)
  case (1 env e local_path w)
  show ?case by simp
next
  case (2 env items local_path w)
  then show ?case by simp
next
  case (3 env items later local_path w)
  let ?t1 = "trace_items local_path items"
  have d1: "\<forall>d \<in> set (dirs_of ?t1). makedirs_fault env (fs w) d = None"
    using "3.prems"(2) by simp
  from "3.IH"(1) [OF "3.prems"(1) d1]
  have f: "for_items env items local_path w = (Inr (), apply_trace ?t1 w)" .
  have d2: "\<forall>d \<in> set (dirs_of (trace_listing local_path later)).
      makedirs_fault env (fs (apply_trace ?t1 w)) d = None"
    using "3.prems"(2) by (simp add: makedirs_fault_add_dirs [OF d1])
  from "3.IH"(2) [OF f [symmetric] refl "3.prems"(1) d2]
  show ?case by (simp add: f apply_trace_append)
next
  case (4 env local_path w)
  show ?case by simp
next
  case (5 env it rest local_path w)
  let ?t1 = "trace_item local_path it"
  have d1: "\<forall>d \<in> set (dirs_of ?t1). makedirs_fault env (fs w) d = None"
    using "5.prems"(2) by simp
  from "5.IH"(1) [OF "5.prems"(1) d1]
  have f: "visit_item env it local_path w = (Inr (), apply_trace ?t1 w)" .
  have d2: "\<forall>d \<in> set (dirs_of (trace_items local_path rest)).
      makedirs_fault env (fs (apply_trace ?t1 w)) d = None"
    using "5.prems"(2) by (simp add: makedirs_fault_add_dirs [OF d1])
  from "5.IH"(2) [OF f [symmetric] refl "5.prems"(1) d2]
  show ?case by (simp add: f apply_trace_append)
next
  case (6 env iid nm mt sub local_path w)
  show ?case
  proof (cases "mt = folder_mime")
    case False
    then show ?thesis
      by (simp add: submit_download_def leaf_file_path_def apply_trace_submit)
  next
    case True
    let ?new = "os_path_join local_path nm"
    let ?ts = "trace_listing ?new sub"
    have d0: "makedirs_fault env (fs w) ?new = None"
      and ds: "\<forall>d \<in> set (dirs_of ?ts). makedirs_fault env (fs w) d = None"
      using "6.prems"(2) True by simp_all
    have d0': "\<forall>d \<in> set [?new]. makedirs_fault env (fs w) d = None" using d0 by simp
    have m: "os_makedirs env ?new w = (Inr (), apply_trace [Mkdir ?new] w)"
      using d0 by (rule os_makedirs_ok)
    have ds': "\<forall>d \<in> set (dirs_of ?ts). makedirs_fault env (fs (apply_trace [Mkdir ?new] w)) d = None"
      using ds by (simp add: makedirs_fault_add_dirs [OF d0'])
    from "6.IH" [OF True m [symmetric] refl "6.prems"(1) ds']
    have l: "list_all_files env sub ?new (apply_trace [Mkdir ?new] w)
        = ((case listing_error sub of Some e \<Rightarrow> Inl (Raised e) | None \<Rightarrow> Inr ()),
           apply_trace ?ts (apply_trace [Mkdir ?new] w))" .
    show ?thesis
    proof (cases "listing_error sub")
      case None
      with True m l show ?thesis
        by (simp add: apply_trace_append [symmetric])
    next
      case (Some e)
      have "apply_trace (Mkdir ?new # ?ts @ [FolderFailed (failure_line iid local_path e)]) w
          = apply_trace [FolderFailed (failure_line iid local_path e)]
              (apply_trace ?ts (apply_trace [Mkdir ?new] w))"
        using apply_trace_append [of "[Mkdir ?new]" "?ts @ [FolderFailed (failure_line iid local_path e)]" w]
          apply_trace_append [of ?ts "[FolderFailed (failure_line iid local_path e)]"]
        by simp
      with True m l Some "6.prems"(1) show ?thesis
        by (simp add: write_failed_folder_ok apply_trace_failed)
    qed
  qed
qed










lemma csv_mime: "''text/csv'' \<noteq> folder_mime" "\<not> startswith ''text/csv'' workspace_prefix"
  by (simp_all add: folder_mime_def startswith_def workspace_prefix_def)






section \<open>Facts about the download protocol\<close>

lemma record_call_simps [simp]:
  "fs (record_call c w) = fs w"
  "failed_downloads_txt (record_call c w) = failed_downloads_txt w"
  "failed_folders_txt (record_call c w) = failed_folders_txt w"
  "submitted_jobs (record_call c w) = submitted_jobs w"
  "calls (record_call c w) = calls w @ [c]"
  by (simp_all add: record_call_def)

lemma write_failed_downloads_ok:
  "log_error env ''./failed_downloads.txt'' = None \<Longrightarrow>
   write_failed_downloads env i n e w
     = (Inr (), w\<lparr>failed_downloads_txt := failed_downloads_txt w @ [failure_line i n e]\<rparr>)"
  by (simp add: write_failed_downloads_def write_failed_downloads_steps_def)

lemma write_failed_downloads_raises:
  "log_error env ''./failed_downloads.txt'' = Some e' \<Longrightarrow>
   write_failed_downloads env i n e w = (Inl (Raised e'), w)"
  by (simp add: write_failed_downloads_def)

lemma temp_path_eq:
  assumes "wf_path p" "parts p \<noteq> []"
  shows "Path (str_path p @ ''.temp'') = p\<lparr>parts := butlast (parts p) @ [last (parts p) @ ''.temp'']\<rparr>"
proof -
  let ?q = "p\<lparr>parts := butlast (parts p) @ [last (parts p) @ ''.temp'']\<rparr>"
  have ne: "last (parts p) @ ''.temp'' \<noteq> ''.''" by simp
  from assms have "last (parts p) \<in> set (parts p)" by simp
  with assms(1) have "CHR ''/'' \<notin> set (last (parts p) @ ''.temp'')" by (auto simp: wf_path_def)
  with assms ne have "wf_path ?q" by (auto simp: wf_path_def dest: in_set_butlastD)
  moreover have "parts ?q \<noteq> []" by simp
  ultimately have "Path (str_path ?q) = ?q" by (rule Path_str_path)
  then show ?thesis using str_path_append [OF assms, of "''.temp''"] by simp
qed

lemma temp_path_parent:
  assumes "sanitize_path fp = Inr S"
  shows "parent (Path (str_path S @ ''.temp'')) = parent S"
  using temp_path_eq [OF sanitize_path_wf [OF assms]] by (simp add: parent_def)

lemma next_chunks_closed:
  "fs w p = Some (File old) \<Longrightarrow>
   next_chunks p cs w
     = ((case stream_error cs of Some e \<Rightarrow> Inl (Raised e) | None \<Rightarrow> Inr ()),
        w\<lparr>fs := (fs w)(p \<mapsto> File (old @ stream_written cs)), calls := calls w @ chunk_calls cs\<rparr>)"
proof (induction cs arbitrary: w old)
  case (ChunkError e)
  then have "(fs w)(p \<mapsto> File old) = fs w" by (simp add: map_upd_triv)
  then show ?case by (simp add: record_call_def)
next
  case (LastChunk b)
  then show ?case by (cases w) (auto simp: record_call_def fh_write_def fun_eq_iff)
next
  case (Chunk b rest)
  let ?w = "fh_write p b (record_call NextChunk w)"
  from Chunk.prems have "fs ?w p = Some (File (old @ b))" by (simp add: fh_write_def)
  from Chunk.IH [OF this] Chunk.prems show ?case
    by (cases w) (auto simp: fh_write_def record_call_def fun_eq_iff)
qed

lemma download_body_sanitize_raises:
  "sanitize_path fp = Inl e \<Longrightarrow> download_body env fid fp mime w = (Inl e, w)"
  by (simp add: download_body_def)

lemma download_body_skip:
  assumes "sanitize_path fp = Inr S" "fs w (str_path S) \<noteq> None"
  shows "download_body env fid fp mime w = (Inr (), record_call (Exists (str_path S)) w)"
  using assms by (simp add: download_body_def os_path_exists_def Let_def)

lemma download_body_closed:
  assumes S: "sanitize_path fp = Inr S" and n: "fs w (str_path S) = None"
    and F: "final_path S mime = Inr F"
  shows "download_body env fid fp mime w =
     (case request_error env (fetch_request fid mime) of
        Some e \<Rightarrow>
          (Inl (Raised e),
           w\<lparr>calls := calls w @ [Exists (str_path S), BuildRequest (fetch_request fid mime)]\<rparr>)
      | None \<Rightarrow>
         (case open_fault env (fs w) (Path (str_path S @ ''.temp'')) of
            Some ex \<Rightarrow>
              (Inl ex,
               w\<lparr>calls := calls w @ [Exists (str_path S), BuildRequest (fetch_request fid mime),
                                     OpenWb (str_path S @ ''.temp'')]\<rparr>)
          | None \<Rightarrow>
             (case stream_error (media env (fetch_request fid mime)) of
                Some e \<Rightarrow>
                  (Inl (Raised e),
                   w\<lparr>fs := (fs w)(str_path S @ ''.temp''
                                  \<mapsto> File (stream_written (media env (fetch_request fid mime)))),
                     calls := calls w @ [Exists (str_path S), BuildRequest (fetch_request fid mime),
                                     OpenWb (str_path S @ ''.temp'')]
                                @ chunk_calls (media env (fetch_request fid mime))\<rparr>)
              | None \<Rightarrow>
                 (case rename_fault env
                         ((fs w)(str_path S @ ''.temp''
                                  \<mapsto> File (stream_written (media env (fetch_request fid mime)))))
                         (str_path S @ ''.temp'') (str_path F) of
                    Some ex \<Rightarrow>
                      (Inl ex,
                       w\<lparr>fs := (fs w)(str_path S @ ''.temp''
                                  \<mapsto> File (stream_written (media env (fetch_request fid mime)))),
                         calls := calls w @ [Exists (str_path S), BuildRequest (fetch_request fid mime),
                                     OpenWb (str_path S @ ''.temp'')]
                                @ chunk_calls (media env (fetch_request fid mime))
                                @ [Rename (str_path S @ ''.temp'') (str_path F)]\<rparr>)
                  | None \<Rightarrow>
                      (Inr (),
                       w\<lparr>fs := (fs w)(str_path S @ ''.temp'' := None,
                                      str_path F
                                  \<mapsto> File (stream_written (media env (fetch_request fid mime)))),
                         calls := calls w @ [Exists (str_path S), BuildRequest (fetch_request fid mime),
                                     OpenWb (str_path S @ ''.temp'')]
                                @ chunk_calls (media env (fetch_request fid mime))
                                @ [Rename (str_path S @ ''.temp'') (str_path F)]\<rparr>)))))"
proof -
  let ?T = "str_path S @ ''.temp''"
  let ?rq = "fetch_request fid mime"
  let ?cs = "media env ?rq"
  let ?w1 = "w\<lparr>calls := calls w @ [Exists (str_path S)]\<rparr>"
  let ?w2 = "w\<lparr>calls := calls w @ [Exists (str_path S), BuildRequest ?rq]\<rparr>"
  let ?w3 = "w\<lparr>fs := (fs w)(?T \<mapsto> File []),
                calls := calls w @ [Exists (str_path S), BuildRequest ?rq, OpenWb ?T]\<rparr>"
  have t: "str_path (Path ?T) = ?T"
    using sanitize_path_wf [OF S] by (rule temp_path_str)
  have b: "download_body env fid fp mime w =
      (case build_request env ?rq ?w1 of
         (Inl e, w2) \<Rightarrow> (Inl e, w2)
       | (Inr u, w2) \<Rightarrow>
           (case open_wb env (Path ?T) w2 of
              (Inl e, w3) \<Rightarrow> (Inl e, w3)
            | (Inr u, w3) \<Rightarrow>
                (case next_chunks ?T ?cs w3 of
                   (Inl e, w4) \<Rightarrow> (Inl e, w4)
                 | (Inr u, w4) \<Rightarrow> os_rename env ?T (str_path F) w4)))"
    by (simp add: download_body_def S n os_path_exists_def Let_def)
       (unfold t F sum.case record_call_def, rule refl)
  show ?thesis
  proof (cases "request_error env ?rq")
    case (Some e)
    then have "build_request env ?rq ?w1 = (Inl (Raised e), ?w2)"
      by (simp add: build_request_def record_call_def)
    with Some show ?thesis by (simp add: b)
  next
    case rq: None
    then have b2: "build_request env ?rq ?w1 = (Inr (), ?w2)"
      by (simp add: build_request_def record_call_def)
    show ?thesis
    proof (cases "open_fault env (fs w) (Path ?T)")
      case (Some ex)
      then have "open_wb env (Path ?T) ?w2
          = (Inl ex, w\<lparr>calls := calls w @ [Exists (str_path S), BuildRequest ?rq, OpenWb ?T]\<rparr>)"
        by (simp add: open_wb_def t record_call_def)
      with Some rq show ?thesis by (simp add: b b2)
    next
      case op: None
      then have o: "open_wb env (Path ?T) ?w2 = (Inr (), ?w3)"
        by (simp add: open_wb_def t record_call_def)
      have "fs ?w3 ?T = Some (File [])" by simp
      from next_chunks_closed [OF this, of ?cs]
      have c: "next_chunks ?T ?cs ?w3
          = ((case stream_error ?cs of Some e \<Rightarrow> Inl (Raised e) | None \<Rightarrow> Inr ()),
             w\<lparr>fs := (fs w)(?T \<mapsto> File (stream_written ?cs)),
               calls := calls w @ [Exists (str_path S), BuildRequest ?rq, OpenWb ?T] @ chunk_calls ?cs\<rparr>)"
        by simp
      show ?thesis
      proof (cases "stream_error ?cs")
        case (Some e)
        with rq op show ?thesis by (simp add: b b2 o c)
      next
        case se: None
        let ?w4 = "w\<lparr>fs := (fs w)(?T \<mapsto> File (stream_written ?cs)),
               calls := calls w @ [Exists (str_path S), BuildRequest ?rq, OpenWb ?T] @ chunk_calls ?cs\<rparr>"
        have d: "download_body env fid fp mime w = os_rename env ?T (str_path F) ?w4"
          using se by (simp add: b b2 o c)
        show ?thesis
        proof (cases "rename_fault env ((fs w)(?T \<mapsto> File (stream_written ?cs))) ?T (str_path F)")
          case (Some ex)
          with rq op se show ?thesis by (simp add: d os_rename_def record_call_def)
        next
          case None
          with rq op se show ?thesis by (simp add: d os_rename_def record_call_def)
        qed
      qed
    qed
  qed
qed

lemma final_path_total:
  assumes "sanitize_path fp = Inr S"
  shows "\<exists>F. final_path S mime = Inr F"
proof -
  from sanitize_path_wf [OF assms] have "name S \<noteq> []"
    by (auto simp: name_def wf_path_def)
  from with_suffix_pdf [OF this] show ?thesis by (auto simp: final_path_def)
qed

lemma download_file_logs:
  assumes "log_error env ''./failed_downloads.txt'' = None"
    and "download_body env fid fp mime w = (Inl e, w1)"
  shows "download_file env fid fp mime w
     = (Inr (), w1\<lparr>failed_downloads_txt := failed_downloads_txt w1 @ [failure_line fid fp (str_exn e)]\<rparr>)"
  using assms by (simp add: download_file_def write_failed_downloads_ok)

lemma download_file_returns:
  assumes "download_body env fid fp mime w = (Inr u, w1)"
  shows "download_file env fid fp mime w = (Inr (), w1)"
  using assms by (simp add: download_file_def)

lemma download_file_handler_raises:
  assumes "log_error env ''./failed_downloads.txt'' = Some e'"
    and "download_body env fid fp mime w = (Inl e, w1)"
  shows "download_file env fid fp mime w = (Inl (Raised e'), w1)"
  using assms by (simp add: download_file_def write_failed_downloads_raises)

text \<open>The example job \<open>./test/data.csv\<close>.\<close>

lemma sanitize_dot:
  "sanitize_path ''.'' = Inl (ValueError (''PosixPath('' @ [CHR 0x27] @ ''.'' @ [CHR 0x27] @ '') has an empty name''))"
  by (simp add: sanitize_path_def with_stem_def with_name_def stem_def suffix_def name_def
      Path_def splitroot_def repr_path_def py_repr_def str_path_def)

lemma sanitize_test_data:
  "sanitize_path ''./test/data.csv'' = Inr \<lparr>root = [], parts = [''test'', ''data.csv'']\<rparr>"
  by (simp add: sanitize_path_def stem_def suffix_def name_def with_stem_def with_name_def
      Path_def splitroot_def)

lemma str_test_data: "str_path \<lparr>root = [], parts = [''test'', ''data.csv'']\<rparr> = ''test/data.csv''"
  by (simp add: str_path_def)

lemma open_test_data:
  "open_error env ''test/data.csv.temp'' = None \<Longrightarrow>
   open_fault env (fs test_world) (Path ''test/data.csv.temp'') = None"
  by (simp add: open_fault_def Path_def splitroot_def str_path_def parent_def is_dir_def
      test_world_def world0_def)

text \<open>The rename target of a Workspace job, and a job that runs to its end.\<close>

lemma with_suffix_pdf_ends:
  assumes "with_suffix S ''.pdf'' = Inr F"
  shows "endswith (str_path F) ''.pdf''"
proof -
  from assms have n: "name S \<noteq> []" by (auto simp: with_suffix_def split: if_splits)
  from with_suffix_pdf [OF n] assms obtain m where
    "F = S\<lparr>parts := butlast (parts S) @ [m @ ''.pdf'']\<rparr>" by auto
  then have "parts F = butlast (parts S) @ [m @ ''.pdf'']" by simp
  then show ?thesis by (rule str_path_ends) simp
qed

lemma sanitize_path_with_suffix:
  assumes "sanitize_path fp = Inr S"
  shows "\<exists>F. with_suffix S ''.pdf'' = Inr F"
proof -
  from sanitize_path_wf [OF assms] have "name S \<noteq> []"
    by (auto simp: name_def wf_path_def)
  from with_suffix_pdf [OF this] show ?thesis by blast
qed

lemma visit_item_leaf:
  assumes "mimeType it \<noteq> folder_mime"
  shows "visit_item env it lp w
     = (Inr (), w\<lparr>submitted_jobs := submitted_jobs w
          @ [(item_id it,
              os_path_join lp (if startswith (mimeType it) workspace_prefix
                               then item_name it @ ''.pdf'' else item_name it),
              mimeType it)]\<rparr>)"
  using assms by (cases it) (simp add: submit_download_def leaf_file_path_def)

lemma download_file_stores:
  assumes S: "sanitize_path fp = Inr S" and n: "fs w (str_path S) = None"
    and F: "final_path S mime = Inr F"
    and rq: "request_error env (fetch_request fid mime) = None"
    and op: "open_fault env (fs w) (Path (str_path S @ ''.temp'')) = None"
    and se: "stream_error (media env (fetch_request fid mime)) = None"
    and rn: "rename_fault env
               ((fs w)(str_path S @ ''.temp'' \<mapsto> File (stream_written (media env (fetch_request fid mime)))))
               (str_path S @ ''.temp'') (str_path F) = None"
  shows "download_file env fid fp mime w
     = (Inr (),
        w\<lparr>fs := (fs w)(str_path S @ ''.temp'' := None,
                       str_path F \<mapsto> File (stream_written (media env (fetch_request fid mime)))),
          calls := calls w @ [Exists (str_path S), BuildRequest (fetch_request fid mime),
                              OpenWb (str_path S @ ''.temp'')]
                     @ chunk_calls (media env (fetch_request fid mime))
                     @ [Rename (str_path S @ ''.temp'') (str_path F)]\<rparr>)"
proof -
  have "download_body env fid fp mime w
     = (Inr (),
        w\<lparr>fs := (fs w)(str_path S @ ''.temp'' := None,
                       str_path F \<mapsto> File (stream_written (media env (fetch_request fid mime)))),
          calls := calls w @ [Exists (str_path S), BuildRequest (fetch_request fid mime),
                              OpenWb (str_path S @ ''.temp'')]
                     @ chunk_calls (media env (fetch_request fid mime))
                     @ [Rename (str_path S @ ''.temp'') (str_path F)]\<rparr>)"
    using rq op se rn by (simp add: download_body_closed [OF S n F])
  then show ?thesis by (rule download_file_returns)
qed

text \<open>The example entries \<open>Report\<close> and \<open>data.csv\<close>.\<close>

lemma doc_mime:
  "''application/vnd.google-apps.document'' \<noteq> folder_mime"
  "startswith ''application/vnd.google-apps.document'' workspace_prefix"
  by (simp_all add: folder_mime_def startswith_def workspace_prefix_def)

lemma sanitize_test_report:
  "sanitize_path ''./test/Report.pdf'' = Inr \<lparr>root = [], parts = [''test'', ''Report.pdf'']\<rparr>"
  by (simp add: sanitize_path_def stem_def suffix_def name_def with_stem_def with_name_def
      Path_def splitroot_def)

lemma with_suffix_test_report:
  "with_suffix \<lparr>root = [], parts = [''test'', ''Report.pdf'']\<rparr> ''.pdf''
     = Inr \<lparr>root = [], parts = [''test'', ''Report.pdf'']\<rparr>"
  by (simp add: with_suffix_def with_name_def stem_def suffix_def name_def startswith_def)

lemma str_test_report:
  "str_path \<lparr>root = [], parts = [''test'', ''Report.pdf'']\<rparr> = ''test/Report.pdf''"
  by (simp add: str_path_def)

lemma open_test_report:
  "open_error env ''test/Report.pdf.temp'' = None \<Longrightarrow>
   open_fault env (fs test_world) (Path ''test/Report.pdf.temp'') = None"
  by (simp add: open_fault_def Path_def splitroot_def str_path_def parent_def is_dir_def
      test_world_def world0_def)

lemma quiet_env_simps:
  "request_error quiet_env rq = None" "media quiet_env rq = LastChunk ''x''"
  "open_error quiet_env p = None" "rename_error quiet_env s d = None"
  "makedirs_error quiet_env p = None" "log_error quiet_env p = None"
  by (simp_all add: quiet_env_def)

text \<open>A job whose sanitized path exists makes the existence check and nothing else.\<close>

lemma download_file_skip:
  assumes "sanitize_path fp = Inr S" "fs w (str_path S) \<noteq> None"
  shows "download_file env fid fp mime w = (Inr (), w\<lparr>calls := calls w @ [Exists (str_path S)]\<rparr>)"
  using download_body_skip [OF assms, of env fid mime]
  by (simp add: download_file_def record_call_def)

text \<open>The example folder \<open>a\<close> with the Workspace document \<open>a/\<close>.\<close>

lemma traversal_a:
  "list_all_files quiet_env
       (LastPage [Item ''idA'' ''a'' folder_mime (LastPage []),
                  Item ''idD'' ''a/'' ''application/vnd.google-apps.document'' (LastPage [])])
       ''./test'' test_world
     = (Inr (), test_world\<lparr>fs := [''test'' \<mapsto> Dir, ''test/a'' \<mapsto> Dir],
          submitted_jobs := [(''idD'', ''./test/a/.pdf'', ''application/vnd.google-apps.document'')]\<rparr>)"
proof -
  let ?m = "''application/vnd.google-apps.document''"
  let ?L = "LastPage [Item ''idA'' ''a'' folder_mime (LastPage []), Item ''idD'' ''a/'' ?m (LastPage [])]"
  have j: "os_path_join ''./test'' ''a'' = ''./test/a''"
    "os_path_join ''./test'' ''a/.pdf'' = ''./test/a/.pdf''"
    by (simp_all add: os_path_join_def startswith_def endswith_def)
  have dk: "dir_keys (Path ''./test/a'') = [''test'', ''test/a'']"
    by (simp add: dir_keys_def Path_def splitroot_def str_path_def upt_rec)
  have tr: "trace_listing ''./test'' ?L = [Mkdir ''./test/a'', Submit (''idD'', ''./test/a/.pdf'', ?m)]"
    by (simp add: j doc_mime)
  have nf: "\<forall>d \<in> set (dirs_of (trace_listing ''./test'' ?L)).
      makedirs_fault quiet_env (fs test_world) d = None"
    unfolding tr by (simp add: makedirs_fault_def quiet_env_simps dk test_world_def world0_def)
  have f: "add_dirs (fs test_world) [''./test/a''] = [''test'' \<mapsto> Dir, ''test/a'' \<mapsto> Dir]"
    by (rule ext) (simp add: add_dirs_def dk test_world_def world0_def)
  from traversal_trace(1) [OF quiet_env_simps(6) nf]
  show ?thesis unfolding tr by (simp add: apply_trace_def f) (simp add: test_world_def world0_def)
qed

lemma sanitize_test_a_pdf:
  "sanitize_path ''./test/a/.pdf'' = Inr \<lparr>root = [], parts = [''test'', ''a'', ''.pdf'']\<rparr>"
  by (simp add: sanitize_path_def stem_def suffix_def name_def with_stem_def with_name_def
      Path_def splitroot_def)

lemma final_test_a_pdf:
  "final_path \<lparr>root = [], parts = [''test'', ''a'', ''.pdf'']\<rparr> ''application/vnd.google-apps.document''
     = Inr \<lparr>root = [], parts = [''test'', ''a'', ''.pdf.pdf'']\<rparr>"
  by (simp add: final_path_def doc_mime)
    (simp add: with_suffix_def with_name_def suffix_def stem_def name_def startswith_def)

lemma str_test_a_pdf:
  "str_path \<lparr>root = [], parts = [''test'', ''a'', ''.pdf'']\<rparr> = ''test/a/.pdf''"
  "str_path \<lparr>root = [], parts = [''test'', ''a'', ''.pdf.pdf'']\<rparr> = ''test/a/.pdf.pdf''"
  by (simp_all add: str_path_def)

lemma open_test_a_pdf:
  "f ''test/a'' = Some Dir \<Longrightarrow> f ''test/a/.pdf.temp'' \<noteq> Some Dir \<Longrightarrow>
   open_fault quiet_env f (Path ''test/a/.pdf.temp'') = None"
  by (simp add: open_fault_def Path_def splitroot_def str_path_def parent_def is_dir_def
      quiet_env_simps)

lemma download_a_pdf:
  assumes "fs w ''test/a'' = Some Dir" "fs w ''test/a/.pdf'' = None"
    "fs w ''test/a/.pdf.temp'' \<noteq> Some Dir" "fs w ''test/a/.pdf.pdf'' \<noteq> Some Dir"
  shows "download_file quiet_env ''idD'' ''./test/a/.pdf'' ''application/vnd.google-apps.document'' w
     = (Inr (), w\<lparr>fs := (fs w)(''test/a/.pdf.temp'' := None, ''test/a/.pdf.pdf'' \<mapsto> File ''x''),
          calls := calls w @ [Exists ''test/a/.pdf'', BuildRequest (ExportMedia ''idD'' ''application/pdf''),
            OpenWb ''test/a/.pdf.temp'', NextChunk, Rename ''test/a/.pdf.temp'' ''test/a/.pdf.pdf'']\<rparr>)"
proof -
  let ?m = "''application/vnd.google-apps.document''"
  have rq: "fetch_request ''idD'' ?m = ExportMedia ''idD'' ''application/pdf''"
    by (simp add: fetch_request_def doc_mime)
  have n: "fs w (str_path \<lparr>root = [], parts = [''test'', ''a'', ''.pdf'']\<rparr>) = None"
    using assms(2) by (simp add: str_test_a_pdf)
  have op: "open_fault quiet_env (fs w)
      (Path (str_path \<lparr>root = [], parts = [''test'', ''a'', ''.pdf'']\<rparr> @ ''.temp'')) = None"
    using open_test_a_pdf [OF assms(1,3)] by (simp add: str_test_a_pdf)
  have rn: "rename_fault quiet_env
       ((fs w)(str_path \<lparr>root = [], parts = [''test'', ''a'', ''.pdf'']\<rparr> @ ''.temp''
           \<mapsto> File (stream_written (media quiet_env (fetch_request ''idD'' ?m)))))
       (str_path \<lparr>root = [], parts = [''test'', ''a'', ''.pdf'']\<rparr> @ ''.temp'')
       (str_path \<lparr>root = [], parts = [''test'', ''a'', ''.pdf.pdf'']\<rparr>) = None"
    using assms(4) by (simp add: rename_fault_def quiet_env_simps str_test_a_pdf)
  have se: "stream_error (media quiet_env (fetch_request ''idD'' ?m)) = None"
    by (simp add: quiet_env_simps)
  from download_file_stores [OF sanitize_test_a_pdf n final_test_a_pdf quiet_env_simps(1) op se rn]
  show ?thesis unfolding rq by (simp add: quiet_env_simps str_test_a_pdf)
qed

section \<open>The path sanitizer: results\<close>

text \<open>
  Claim C5, as amended. For every input path whose final component is not empty:
  when the filename stem is longer than 250 characters, \<open>sanitize_path\<close> returns the
  path with the same root and directories whose final component is the first 245
  characters of the stem followed by the original extension (and, when there is an
  extension, the new path has that 245-character stem and that extension); when the
  stem has at most 250 characters it returns the path unchanged.
\<close>

theorem sanitize_path_spec:
  assumes "name (Path p) \<noteq> []"
  shows "(250 < length (stem (Path p)) \<longrightarrow>
           (\<exists>q. sanitize_path p = Inr q
               \<and> root q = root (Path p)
               \<and> butlast (parts q) = butlast (parts (Path p))
               \<and> name q = take 245 (stem (Path p)) @ suffix (Path p)
               \<and> (suffix (Path p) \<noteq> [] \<longrightarrow>
                    stem q = take 245 (stem (Path p)) \<and> suffix q = suffix (Path p))))
       \<and> (length (stem (Path p)) \<le> 250 \<longrightarrow> sanitize_path p = Inr (Path p))"
  using sanitize_path_Inr [OF assms] truncated_stem_suffix [of "Path p" 245 "butlast (parts (Path p))"]
  by auto

theorem sanitize_path_spec_witness:
  "name (Path (replicate 300 (CHR ''a'') @ ''.txt'')) \<noteq> []
   \<and> sanitize_path (replicate 300 (CHR ''a'') @ ''.txt'')
       = Inr \<lparr>root = [], parts = [replicate 245 (CHR ''a'') @ ''.txt'']\<rparr>
   \<and> name (Path ''test/data.csv'') \<noteq> []
   \<and> sanitize_path ''test/data.csv'' = Inr \<lparr>root = [], parts = [''test'', ''data.csv'']\<rparr>"
proof -
  let ?long = "replicate 300 (CHR ''a'') @ ''.txt''"
  have "?long \<noteq> []" "CHR ''/'' \<notin> set ?long" by simp_all
  moreover have "?long \<noteq> ''.''"
  proof
    assume "?long = ''.''"
    then have "length ?long = length ''.''" by (rule arg_cong)
    then show False by simp
  qed
  ultimately have P: "Path ?long = \<lparr>root = [], parts = [?long]\<rparr>"
    by (intro Path_component)
  have n: "name (Path ?long) \<noteq> []" unfolding P by (simp add: name_def)
  have "rfind (CHR ''.'') (replicate 300 (CHR ''a'') @ CHR ''.'' # ''txt'') = Some (length (replicate 300 (CHR ''a'')))"
    by (rule rfind_append_last) simp
  then have r: "rfind (CHR ''.'') ?long = Some 300" by simp
  have st: "stem \<lparr>root = [], parts = [?long]\<rparr> = replicate 300 (CHR ''a'')"
    using r by (simp add: stem_def name_def)
  have sf: "suffix \<lparr>root = [], parts = [?long]\<rparr> = ''.txt''"
    using r by (simp add: suffix_def name_def)
  have Q: "Path ''test/data.csv'' = \<lparr>root = [], parts = [''test'', ''data.csv'']\<rparr>"
    by (simp add: Path_def splitroot_def)
  have m: "name (Path ''test/data.csv'') \<noteq> []" unfolding Q by (simp add: name_def)
  have st2: "length (stem (Path ''test/data.csv'')) \<le> 250"
    unfolding Q by (simp add: stem_def name_def)
  have big: "250 < length (stem (Path ?long))" unfolding P st by simp
  from sanitize_path_spec [OF n] big obtain q where
    q0: "sanitize_path ?long = Inr q" "root q = root (Path ?long)"
      "butlast (parts q) = butlast (parts (Path ?long))"
      "name q = take 245 (stem (Path ?long)) @ suffix (Path ?long)"
    by blast
  have q: "sanitize_path ?long = Inr q" "root q = []" "butlast (parts q) = []"
    "name q = replicate 245 (CHR ''a'') @ ''.txt''"
    using q0 unfolding P st sf by simp_all
  from q(4) have "parts q \<noteq> []" by (auto simp: name_def split: if_splits)
  with q(3,4) have "parts q = [replicate 245 (CHR ''a'') @ ''.txt'']"
    by (metis append_butlast_last_id append_Nil name_def)
  with q(1,2) have A: "sanitize_path ?long
       = Inr \<lparr>root = [], parts = [replicate 245 (CHR ''a'') @ ''.txt'']\<rparr>"
    by (cases q) simp
  from sanitize_path_spec [OF m] st2 have B: "sanitize_path ''test/data.csv'' = Inr (Path ''test/data.csv'')"
    by blast
  show ?thesis using n m A B unfolding Q by blast
qed

text \<open>
  The claim as it was written promises a returned path for every input. On the empty
  string the stem is empty, so the length condition does not hold, and the call does
  not return the path: \<open>with_stem\<close> raises.
\<close>

theorem sanitize_path_empty_counterexample:
  "length (stem (Path [])) \<le> 250 \<and> sanitize_path [] \<noteq> Inr (Path [])"
  by (simp add: sanitize_path_def with_stem_def with_name_def stem_def suffix_def name_def
      Path_def splitroot_def)

text \<open>
  Claim C10. \<open>sanitize_path\<close> is partial: on every path whose final component is empty
  the stem is empty, the length condition is not triggered, and \<open>with_stem\<close> raises
  \<open>ValueError\<close>. The strings \<open>''.''\<close>, \<open>''/''\<close> and the empty string are such paths.
\<close>

theorem sanitize_path_partial:
  assumes "name (Path p) = []"
  shows "length (stem (Path p)) \<le> 250
       \<and> sanitize_path p = Inl (ValueError (repr_path (Path p) @ '' has an empty name''))"
  using assms by (simp add: sanitize_path_def with_stem_def with_name_def stem_def)

theorem sanitize_path_partial_witness:
  "name (Path ''.'') = [] \<and> name (Path ''/'') = [] \<and> name (Path []) = []
   \<and> sanitize_path ''.'' = Inl (ValueError (''PosixPath('' @ [CHR 0x27] @ ''.'' @ [CHR 0x27] @ '') has an empty name''))
   \<and> sanitize_path ''/'' = Inl (ValueError (''PosixPath('' @ [CHR 0x27] @ ''/'' @ [CHR 0x27] @ '') has an empty name''))
   \<and> sanitize_path [] = Inl (ValueError (''PosixPath('' @ [CHR 0x27] @ ''.'' @ [CHR 0x27] @ '') has an empty name''))"
proof -
  have a: "name (Path ''.'') = []" by (simp add: name_def Path_def splitroot_def)
  have b: "name (Path ''/'') = []" by (simp add: name_def Path_def splitroot_def lstrip_sep_def)
  have c: "name (Path []) = []" by (simp add: name_def Path_def splitroot_def)
  have ra: "repr_path (Path ''.'') = ''PosixPath('' @ [CHR 0x27] @ ''.'' @ [CHR 0x27] @ '')''"
    by (simp add: repr_path_def py_repr_def str_path_def Path_def splitroot_def)
  have rb: "repr_path (Path ''/'') = ''PosixPath('' @ [CHR 0x27] @ ''/'' @ [CHR 0x27] @ '')''"
    by (simp add: repr_path_def py_repr_def str_path_def Path_def splitroot_def lstrip_sep_def)
  have rc: "repr_path (Path []) = ''PosixPath('' @ [CHR 0x27] @ ''.'' @ [CHR 0x27] @ '')''"
    by (simp add: repr_path_def py_repr_def str_path_def Path_def splitroot_def)
  show ?thesis
    using sanitize_path_partial [OF a] sanitize_path_partial [OF b] sanitize_path_partial [OF c]
      a b c ra rb rc
    by simp
qed

section \<open>The job executor: results\<close>

text \<open>
  Claim C2. In every state that a job executor created with capacity \<open>mw\<close> reaches
  through \<open>submit_job\<close> calls and job completions, the jobs in flight (submitted and
  not completed) number at most \<open>mw\<close>, and the tracked list \<open>futures\<close> holds at most
  \<open>mw\<close> handles.
\<close>

theorem in_flight_bounded:
  assumes "reachable mw x"
  shows "max_workers x = mw \<and> int (card (in_flight x)) \<le> mw \<and> int (length (futures x)) \<le> mw"
proof -
  from assms have inv: "executor_inv mw x" by (rule reachable_inv)
  then have "card (in_flight x) \<le> card (set (futures x))"
    by (intro card_mono in_flight_tracked) auto
  also have "\<dots> \<le> length (futures x)" by (rule card_length)
  finally show ?thesis using inv by (simp add: executor_inv_def)
qed

theorem in_flight_bounded_witness:
  "reachable 1 \<lparr>max_workers = 1, futures = [1], created = 2, finished = {0}\<rparr>
   \<and> int (card (in_flight \<lparr>max_workers = 1, futures = [1], created = 2, finished = {0}\<rparr>)) \<le> 1
   \<and> int (length (futures \<lparr>max_workers = 1, futures = [1], created = 2, finished = {0}\<rparr>)) \<le> 1"
  using in_flight_bounded [OF run1_state3] run1_state3 by blast

text \<open>
  Claim C7. In a reachable state whose tracked list has reached capacity,
  \<open>submit_job\<close> is blocked exactly as long as no tracked job has finished, and the
  completion of any tracked job unblocks it; when it returns it has removed every
  tracked handle that is finished, submitted the new job to the pool and appended its
  handle. Below capacity it submits and appends at once, with nothing removed. In
  both cases the returned handle is the one the pool created, the pool has counted
  it, and the jobs in flight are those of before and the new one.
\<close>

theorem submit_job_spec:
  assumes "reachable mw x"
  shows "(max_workers x \<le> int (length (futures x)) \<longrightarrow>
            submit_job x =
              (if \<forall>f \<in> set (futures x). f \<notin> finished x then None
               else Some (created x,
                      x\<lparr>futures := filter (\<lambda>f. f \<notin> finished x) (futures x) @ [created x],
                        created := Suc (created x)\<rparr>))
          \<and> (\<forall>f \<in> set (futures x). submit_job (job_completes f x) \<noteq> None))
       \<and> (int (length (futures x)) < max_workers x \<longrightarrow>
            submit_job x = Some (created x, x\<lparr>futures := futures x @ [created x],
                                               created := Suc (created x)\<rparr>))
       \<and> (\<forall>h x'. submit_job x = Some (h, x') \<longrightarrow>
            h = fst (executor_submit x)
          \<and> created x' = Suc (created x)
          \<and> h \<notin> in_flight x \<and> h \<in> in_flight x'
          \<and> in_flight x' = insert h (in_flight x))"
proof -
  from assms have inv: "executor_inv mw x" by (rule reachable_inv)
  from assms have fin: "\<forall>h \<in> finished x. h < created x" by (rule reachable_finished)
  show ?thesis
  proof (intro conjI impI allI)
    assume cap: "max_workers x \<le> int (length (futures x))"
    with inv have ne: "futures x \<noteq> []" by (auto simp: executor_inv_def)
    show "submit_job x =
              (if \<forall>f \<in> set (futures x). f \<notin> finished x then None
               else Some (created x,
                      x\<lparr>futures := filter (\<lambda>f. f \<notin> finished x) (futures x) @ [created x],
                        created := Suc (created x)\<rparr>))"
      by (rule submit_job_at_capacity [OF cap ne])
    show "\<forall>f \<in> set (futures x). submit_job (job_completes f x) \<noteq> None"
    proof
      fix f assume f: "f \<in> set (futures x)"
      have "max_workers (job_completes f x) \<le> int (length (futures (job_completes f x)))"
        "futures (job_completes f x) \<noteq> []"
        using cap ne by (simp_all add: job_completes_def)
      from submit_job_at_capacity [OF this] f
      show "submit_job (job_completes f x) \<noteq> None"
        by (auto simp: job_completes_def)
    qed
  next
    assume "int (length (futures x)) < max_workers x"
    then show "submit_job x = Some (created x, x\<lparr>futures := futures x @ [created x],
                                               created := Suc (created x)\<rparr>)"
      by (rule submit_job_below)
  next
    fix h x' assume s: "submit_job x = Some (h, x')"
    from submit_job_created [OF s] have c: "h = created x" "created x' = Suc (created x)"
      "finished x' = finished x" by simp_all
    from fin have nf: "created x \<notin> finished x" by auto
    show "h = fst (executor_submit x)" using c by (simp add: executor_submit_def)
    show "created x' = Suc (created x)" by (rule c(2))
    show "h \<notin> in_flight x" using c by (simp add: in_flight_def)
    show "h \<in> in_flight x'" using c nf by (simp add: in_flight_def)
    show "in_flight x' = insert h (in_flight x)" using c nf by (auto simp: in_flight_def less_Suc_eq)
  qed
qed

theorem submit_job_spec_witness:
  "reachable 2 \<lparr>max_workers = 2, futures = [0], created = 1, finished = {}\<rparr>
   \<and> submit_job \<lparr>max_workers = 2, futures = [0], created = 1, finished = {}\<rparr>
       = Some (1, \<lparr>max_workers = 2, futures = [0, 1], created = 2, finished = {}\<rparr>)
   \<and> reachable 2 \<lparr>max_workers = 2, futures = [0, 1], created = 2, finished = {}\<rparr>
   \<and> submit_job \<lparr>max_workers = 2, futures = [0, 1], created = 2, finished = {}\<rparr> = None
   \<and> submit_job (job_completes 1 \<lparr>max_workers = 2, futures = [0, 1], created = 2, finished = {}\<rparr>)
       \<noteq> None
   \<and> reachable 2 \<lparr>max_workers = 2, futures = [0, 1], created = 2, finished = {1, 0}\<rparr>
   \<and> submit_job \<lparr>max_workers = 2, futures = [0, 1], created = 2, finished = {1, 0}\<rparr>
       = Some (2, \<lparr>max_workers = 2, futures = [2], created = 3, finished = {1, 0}\<rparr>)
   \<and> in_flight \<lparr>max_workers = 2, futures = [2], created = 3, finished = {1, 0}\<rparr> = {2}"
proof -
  let ?s1 = "\<lparr>max_workers = 2, futures = [0], created = 1, finished = {}\<rparr>"
  let ?s2 = "\<lparr>max_workers = 2, futures = [0, 1], created = 2, finished = {}\<rparr>"
  let ?s4 = "\<lparr>max_workers = 2, futures = [0, 1], created = 2, finished = {1, 0}\<rparr>"
  let ?s5 = "\<lparr>max_workers = 2, futures = [2], created = 3, finished = {1, 0}\<rparr>"
  from submit_job_spec [OF run2_state1]
  have a: "submit_job ?s1 = Some (1, ?s2)" by simp
  from submit_job_spec [OF run2_state2]
  have b: "submit_job ?s2 = None" "submit_job (job_completes 1 ?s2) \<noteq> None" by simp_all
  from submit_job_spec [OF run2_state4]
  have c: "submit_job ?s4 = Some (2, ?s5)" by simp
  from submit_job_spec [OF run2_state4] c
  have "in_flight ?s5 = insert 2 (in_flight ?s4)" by blast
  moreover have "in_flight ?s4 = {}" by (simp add: in_flight_def upt_rec)
  ultimately have d: "in_flight ?s5 = {2}" by simp
  from a b c d run2_state1 run2_state2 run2_state4 show ?thesis by simp
qed

text \<open>
  Claim C8. When \<open>wait_completion\<close> returns in a reachable state, every handle that
  \<open>submit_job\<close> ever created is finished, those that were removed from the tracked
  list by an earlier \<open>submit_job\<close> included.
\<close>

theorem wait_completion_barrier:
  assumes "reachable mw x" and "wait_completion x = Some x'"
  shows "x' = x \<and> (\<forall>h < created x. h \<in> finished x) \<and> in_flight x = {}"
proof -
  from assms(1) have inv: "executor_inv mw x" by (rule reachable_inv)
  from assms(2) have all: "\<forall>f \<in> set (futures x). f \<in> finished x" and "x' = x"
    by (auto simp: wait_completion_def wait_all_completed_def split: if_splits option.splits)
  with inv have "\<forall>h < created x. h \<in> finished x"
    by (auto simp: executor_inv_def)
  then show ?thesis using \<open>x' = x\<close> by (auto simp: in_flight_def)
qed

theorem wait_completion_barrier_witness:
  "reachable 1 \<lparr>max_workers = 1, futures = [1], created = 2, finished = {1, 0}\<rparr>
   \<and> wait_completion \<lparr>max_workers = 1, futures = [1], created = 2, finished = {1, 0}\<rparr>
       = Some \<lparr>max_workers = 1, futures = [1], created = 2, finished = {1, 0}\<rparr>
   \<and> in_flight \<lparr>max_workers = 1, futures = [1], created = 2, finished = {1, 0}\<rparr> = {}"
proof -
  have w: "wait_completion \<lparr>max_workers = 1, futures = [1], created = 2, finished = {1, 0}\<rparr>
       = Some \<lparr>max_workers = 1, futures = [1], created = 2, finished = {1, 0}\<rparr>"
    by (simp add: wait_completion_def wait_all_completed_def)
  from wait_completion_barrier [OF run1_state4 w] run1_state4 w show ?thesis by blast
qed

section \<open>The traversal driver: results\<close>




section \<open>The download protocol: results\<close>

text \<open>
  Claim C1, as amended. Provided that the append to the download failure log does
  not raise: whichever stage of a download job fails, whether the path cannot be
  sanitized, the request cannot be built, the temp file cannot be opened, a chunk
  cannot be fetched or written, or the rename fails, \<open>download_file\<close> returns
  without raising, the download failure log has grown by exactly one line with the
  file id, the intended path and the text of that error, and the filesystem is the
  one of before, except that from a failing chunk on the temp path (the sanitized
  path followed by \<open>.temp\<close>, a path other than the sanitized path) holds the bytes
  written so far. In particular nothing stands at the sanitized destination path,
  at which nothing stood when the job began. When no stage fails, nothing is logged,
  the temp path is gone and the rename target holds all the bytes: the destination
  file appears only through the rename of the fully written temp file.
\<close>

theorem download_file_atomic:
  assumes log: "log_error env ''./failed_downloads.txt'' = None"
  shows "(\<forall>e. sanitize_path fp = Inl e \<longrightarrow>
            failure_logged fid fp e (fs w) w (download_file env fid fp mime w))
       \<and> (\<forall>S F. sanitize_path fp = Inr S \<and> fs w (str_path S) = None
              \<and> (if startswith mime workspace_prefix then with_suffix S ''.pdf'' else Inr S) = Inr F
            \<longrightarrow>
            (let T = str_path S @ ''.temp'';
                 rq = (if startswith mime workspace_prefix
                       then ExportMedia fid ''application/pdf'' else GetMedia fid);
                 partial = (fs w)(T \<mapsto> File (stream_written (media env rq)));
                 r = download_file env fid fp mime w
             in T \<noteq> str_path S
              \<and> (\<forall>e. request_error env rq = Some e \<longrightarrow>
                     failure_logged fid fp (Raised e) (fs w) w r)
              \<and> (\<forall>ex. request_error env rq = None
                      \<and> open_fault env (fs w) (Path T) = Some ex \<longrightarrow>
                     failure_logged fid fp ex (fs w) w r)
              \<and> (\<forall>e. request_error env rq = None
                      \<and> open_fault env (fs w) (Path T) = None
                      \<and> stream_error (media env rq) = Some e \<longrightarrow>
                     failure_logged fid fp (Raised e) partial w r)
              \<and> (\<forall>ex. request_error env rq = None
                      \<and> open_fault env (fs w) (Path T) = None
                      \<and> stream_error (media env rq) = None
                      \<and> rename_fault env partial T (str_path F) = Some ex \<longrightarrow>
                     failure_logged fid fp ex partial w r)
              \<and> (request_error env rq = None
                      \<and> open_fault env (fs w) (Path T) = None
                      \<and> stream_error (media env rq) = None
                      \<and> rename_fault env partial T (str_path F) = None \<longrightarrow>
                     fst r = Inr ()
                   \<and> failed_downloads_txt (snd r) = failed_downloads_txt w
                   \<and> fs (snd r) = (fs w)(T := None, str_path F
                                          \<mapsto> File (stream_written (media env rq))))))"
proof (intro conjI allI impI)
  fix e assume "sanitize_path fp = Inl e"
  then have "download_body env fid fp mime w = (Inl e, w)" by (rule download_body_sanitize_raises)
  from download_file_logs [OF log this]
  show "failure_logged fid fp e (fs w) w (download_file env fid fp mime w)"
    by (simp add: failure_logged_def)
next
  fix S F
  assume a: "sanitize_path fp = Inr S \<and> fs w (str_path S) = None
      \<and> (if startswith mime workspace_prefix then with_suffix S ''.pdf'' else Inr S) = Inr F"
  then have S: "sanitize_path fp = Inr S" and n: "fs w (str_path S) = None"
    and F: "final_path S mime = Inr F"
    by (simp_all add: final_path_def)
  let ?T = "str_path S @ ''.temp''"
  let ?rq = "if startswith mime workspace_prefix then ExportMedia fid ''application/pdf'' else GetMedia fid"
  let ?partial = "(fs w)(?T \<mapsto> File (stream_written (media env ?rq)))"
  let ?r = "download_file env fid fp mime w"
  have rq: "fetch_request fid mime = ?rq" by (simp add: fetch_request_def)
  note c = download_body_closed [OF S n F, of env fid, unfolded rq]
  have 0: "?T \<noteq> str_path S" by simp
  have 1: "\<forall>e. request_error env ?rq = Some e \<longrightarrow> failure_logged fid fp (Raised e) (fs w) w ?r"
  proof (intro allI impI)
    fix e assume "request_error env ?rq = Some e"
    with c have "download_body env fid fp mime w
        = (Inl (Raised e), w\<lparr>calls := calls w @ [Exists (str_path S), BuildRequest ?rq]\<rparr>)"
      by simp
    from download_file_logs [OF log this]
    show "failure_logged fid fp (Raised e) (fs w) w ?r" by (simp add: failure_logged_def)
  qed
  have 2: "\<forall>ex. request_error env ?rq = None \<and> open_fault env (fs w) (Path ?T) = Some ex \<longrightarrow>
      failure_logged fid fp ex (fs w) w ?r"
  proof (intro allI impI)
    fix ex assume "request_error env ?rq = None \<and> open_fault env (fs w) (Path ?T) = Some ex"
    with c have "download_body env fid fp mime w
        = (Inl ex, w\<lparr>calls := calls w @ [Exists (str_path S), BuildRequest ?rq, OpenWb ?T]\<rparr>)"
      by simp
    from download_file_logs [OF log this]
    show "failure_logged fid fp ex (fs w) w ?r" by (simp add: failure_logged_def)
  qed
  have 3: "\<forall>e. request_error env ?rq = None \<and> open_fault env (fs w) (Path ?T) = None
        \<and> stream_error (media env ?rq) = Some e \<longrightarrow>
      failure_logged fid fp (Raised e) ?partial w ?r"
  proof (intro allI impI)
    fix e assume "request_error env ?rq = None \<and> open_fault env (fs w) (Path ?T) = None
        \<and> stream_error (media env ?rq) = Some e"
    with c have "download_body env fid fp mime w
        = (Inl (Raised e), w\<lparr>fs := ?partial,
             calls := calls w @ [Exists (str_path S), BuildRequest ?rq, OpenWb ?T]
                        @ chunk_calls (media env ?rq)\<rparr>)"
      by simp
    from download_file_logs [OF log this]
    show "failure_logged fid fp (Raised e) ?partial w ?r" by (simp add: failure_logged_def)
  qed
  have 4: "\<forall>ex. request_error env ?rq = None \<and> open_fault env (fs w) (Path ?T) = None
        \<and> stream_error (media env ?rq) = None
        \<and> rename_fault env ?partial ?T (str_path F) = Some ex \<longrightarrow>
      failure_logged fid fp ex ?partial w ?r"
  proof (intro allI impI)
    fix ex assume "request_error env ?rq = None \<and> open_fault env (fs w) (Path ?T) = None
        \<and> stream_error (media env ?rq) = None
        \<and> rename_fault env ?partial ?T (str_path F) = Some ex"
    with c have "download_body env fid fp mime w
        = (Inl ex, w\<lparr>fs := ?partial,
             calls := calls w @ [Exists (str_path S), BuildRequest ?rq, OpenWb ?T]
                        @ chunk_calls (media env ?rq) @ [Rename ?T (str_path F)]\<rparr>)"
      by simp
    from download_file_logs [OF log this]
    show "failure_logged fid fp ex ?partial w ?r" by (simp add: failure_logged_def)
  qed
  have 5: "request_error env ?rq = None \<and> open_fault env (fs w) (Path ?T) = None
        \<and> stream_error (media env ?rq) = None
        \<and> rename_fault env ?partial ?T (str_path F) = None \<longrightarrow>
      fst ?r = Inr () \<and> failed_downloads_txt (snd ?r) = failed_downloads_txt w
      \<and> fs (snd ?r) = (fs w)(?T := None, str_path F \<mapsto> File (stream_written (media env ?rq)))"
  proof
    assume "request_error env ?rq = None \<and> open_fault env (fs w) (Path ?T) = None
        \<and> stream_error (media env ?rq) = None
        \<and> rename_fault env ?partial ?T (str_path F) = None"
    with c have "download_body env fid fp mime w
        = (Inr (), w\<lparr>fs := (fs w)(?T := None, str_path F \<mapsto> File (stream_written (media env ?rq))),
             calls := calls w @ [Exists (str_path S), BuildRequest ?rq, OpenWb ?T]
                        @ chunk_calls (media env ?rq) @ [Rename ?T (str_path F)]\<rparr>)"
      by simp
    from download_file_returns [OF this]
    show "fst ?r = Inr () \<and> failed_downloads_txt (snd ?r) = failed_downloads_txt w
      \<and> fs (snd ?r) = (fs w)(?T := None, str_path F \<mapsto> File (stream_written (media env ?rq)))"
      by simp
  qed
  from 0 1 2 3 4 5
  show "let T = str_path S @ ''.temp'';
            rq = (if startswith mime workspace_prefix
                       then ExportMedia fid ''application/pdf'' else GetMedia fid);
            partial = (fs w)(T \<mapsto> File (stream_written (media env rq)));
            r = download_file env fid fp mime w
        in T \<noteq> str_path S
              \<and> (\<forall>e. request_error env rq = Some e \<longrightarrow>
                     failure_logged fid fp (Raised e) (fs w) w r)
              \<and> (\<forall>ex. request_error env rq = None
                      \<and> open_fault env (fs w) (Path T) = Some ex \<longrightarrow>
                     failure_logged fid fp ex (fs w) w r)
              \<and> (\<forall>e. request_error env rq = None
                      \<and> open_fault env (fs w) (Path T) = None
                      \<and> stream_error (media env rq) = Some e \<longrightarrow>
                     failure_logged fid fp (Raised e) partial w r)
              \<and> (\<forall>ex. request_error env rq = None
                      \<and> open_fault env (fs w) (Path T) = None
                      \<and> stream_error (media env rq) = None
                      \<and> rename_fault env partial T (str_path F) = Some ex \<longrightarrow>
                     failure_logged fid fp ex partial w r)
              \<and> (request_error env rq = None
                      \<and> open_fault env (fs w) (Path T) = None
                      \<and> stream_error (media env rq) = None
                      \<and> rename_fault env partial T (str_path F) = None \<longrightarrow>
                     fst r = Inr ()
                   \<and> failed_downloads_txt (snd r) = failed_downloads_txt w
                   \<and> fs (snd r) = (fs w)(T := None, str_path F
                                          \<mapsto> File (stream_written (media env rq))))"
    unfolding Let_def by blast
qed

theorem download_file_atomic_witness:
  "log_error failing_env ''./failed_downloads.txt'' = None
   \<and> sanitize_path ''.''
       = Inl (ValueError (''PosixPath('' @ [CHR 0x27] @ ''.'' @ [CHR 0x27] @ '') has an empty name''))
   \<and> fst (download_file failing_env ''idX'' ''.'' ''text/csv'' test_world) = Inr ()
   \<and> failed_downloads_txt (snd (download_file failing_env ''idX'' ''.'' ''text/csv'' test_world))
       = [''idX,.,PosixPath('' @ [CHR 0x27] @ ''.'' @ [CHR 0x27] @ '') has an empty name'' @ [CHR 0x0A]]
   \<and> sanitize_path ''./test/data.csv'' = Inr \<lparr>root = [], parts = [''test'', ''data.csv'']\<rparr>
   \<and> fs test_world ''test/data.csv'' = None
   \<and> request_error failing_env (GetMedia ''idF'') = None
   \<and> open_fault failing_env (fs test_world) (Path ''test/data.csv.temp'') = None
   \<and> stream_error (media failing_env (GetMedia ''idF'')) = Some ''connection reset''
   \<and> fst (download_file failing_env ''idF'' ''./test/data.csv'' ''text/csv'' test_world) = Inr ()
   \<and> failed_downloads_txt (snd (download_file failing_env ''idF'' ''./test/data.csv'' ''text/csv'' test_world))
       = [''idF,./test/data.csv,connection reset'' @ [CHR 0x0A]]
   \<and> fs (snd (download_file failing_env ''idF'' ''./test/data.csv'' ''text/csv'' test_world))
       = [''test'' \<mapsto> Dir, ''test/data.csv.temp'' \<mapsto> File ''ab'']
   \<and> fs (snd (download_file failing_env ''idF'' ''./test/data.csv'' ''text/csv'' test_world))
        ''test/data.csv'' = None"
proof -
  let ?S = "\<lparr>root = [], parts = [''test'', ''data.csv'']\<rparr>"
  have log: "log_error failing_env ''./failed_downloads.txt'' = None"
    by (simp add: failing_env_def quiet_env_def)
  have ns: "\<not> startswith ''text/csv'' workspace_prefix"
    by (simp add: startswith_def workspace_prefix_def)
  have n: "fs test_world ''test/data.csv'' = None" by (simp add: test_world_def world0_def)
  have rq: "request_error failing_env (GetMedia ''idF'') = None"
    by (simp add: failing_env_def quiet_env_def)
  have op: "open_fault failing_env (fs test_world) (Path ''test/data.csv.temp'') = None"
    by (rule open_test_data) (simp add: failing_env_def quiet_env_def)
  have se: "stream_error (media failing_env (GetMedia ''idF'')) = Some ''connection reset''"
    "stream_written (media failing_env (GetMedia ''idF'')) = ''ab''"
    by (simp_all add: failing_env_def)
  from download_file_atomic [OF log, where fp = "''.''" and fid = "''idX''" and w = test_world
      and mime = "''text/csv''"] sanitize_dot
  have a: "failure_logged ''idX'' ''.''
      (ValueError (''PosixPath('' @ [CHR 0x27] @ ''.'' @ [CHR 0x27] @ '') has an empty name''))
      (fs test_world) test_world (download_file failing_env ''idX'' ''.'' ''text/csv'' test_world)"
    by blast
  from download_file_atomic [OF log, where fp = "''./test/data.csv''" and fid = "''idF''"
      and w = test_world and mime = "''text/csv''"]
  have "\<forall>S F. sanitize_path ''./test/data.csv'' = Inr S \<and> fs test_world (str_path S) = None
          \<and> Inr S = Inr F \<longrightarrow>
        (\<forall>e. request_error failing_env (GetMedia ''idF'') = None
            \<and> open_fault failing_env (fs test_world) (Path (str_path S @ ''.temp'')) = None
            \<and> stream_error (media failing_env (GetMedia ''idF'')) = Some e \<longrightarrow>
          failure_logged ''idF'' ''./test/data.csv'' (Raised e)
            ((fs test_world)(str_path S @ ''.temp''
                \<mapsto> File (stream_written (media failing_env (GetMedia ''idF'')))))
            test_world
            (download_file failing_env ''idF'' ''./test/data.csv'' ''text/csv'' test_world))"
    unfolding Let_def by (simp add: ns)
  from this [rule_format, of ?S ?S "''connection reset''"] sanitize_test_data n rq op se
  have b: "failure_logged ''idF'' ''./test/data.csv'' (Raised ''connection reset'')
            ((fs test_world)(''test/data.csv.temp'' \<mapsto> File ''ab''))
            test_world
            (download_file failing_env ''idF'' ''./test/data.csv'' ''text/csv'' test_world)"
    by (simp add: str_test_data)
  have f: "(fs test_world)(''test/data.csv.temp'' \<mapsto> File ''ab'')
      = [''test'' \<mapsto> Dir, ''test/data.csv.temp'' \<mapsto> File ''ab'']"
    by (simp add: test_world_def world0_def)
  from a b show ?thesis
    using log sanitize_dot sanitize_test_data n rq op se(1)
    by (simp add: failure_logged_def f failure_line_def test_world_def world0_def)
qed

text \<open>
  The claim as it was written has no proviso. When the fetch fails and the download
  failure log cannot be opened, the handler raises: no record is appended and an
  exception leaves \<open>download_file\<close>.
\<close>

theorem download_failure_unlogged_counterexample:
  "stream_error (media no_log_env (GetMedia ''idF'')) = Some ''connection reset''
   \<and> fst (download_file no_log_env ''idF'' ''./test/data.csv'' ''text/csv'' test_world)
       = Inl (Raised ''[Errno 13] Permission denied'')
   \<and> failed_downloads_txt
        (snd (download_file no_log_env ''idF'' ''./test/data.csv'' ''text/csv'' test_world)) = []"
proof -
  let ?S = "\<lparr>root = [], parts = [''test'', ''data.csv'']\<rparr>"
  have ns: "\<not> startswith ''text/csv'' workspace_prefix"
    by (simp add: startswith_def workspace_prefix_def)
  have n: "fs test_world (str_path ?S) = None" by (simp add: str_test_data test_world_def world0_def)
  have F: "final_path ?S ''text/csv'' = Inr ?S" by (simp add: final_path_def ns)
  have rq: "fetch_request ''idF'' ''text/csv'' = GetMedia ''idF''" by (simp add: fetch_request_def ns)
  have op: "open_fault no_log_env (fs test_world) (Path ''test/data.csv.temp'') = None"
    by (rule open_test_data) (simp add: no_log_env_def failing_env_def quiet_env_def)
  have se: "stream_error (media no_log_env (GetMedia ''idF'')) = Some ''connection reset''"
    by (simp add: no_log_env_def failing_env_def)
  have l: "log_error no_log_env ''./failed_downloads.txt'' = Some ''[Errno 13] Permission denied''"
    by (simp add: no_log_env_def)
  have rqe: "request_error no_log_env (GetMedia ''idF'') = None"
    by (simp add: no_log_env_def failing_env_def quiet_env_def)
  note c = download_body_closed [OF sanitize_test_data n F, of no_log_env "''idF''", unfolded rq]
  from c rqe op se obtain w1 where
    w1: "download_body no_log_env ''idF'' ''./test/data.csv'' ''text/csv'' test_world
      = (Inl (Raised ''connection reset''), w1)" "failed_downloads_txt w1 = failed_downloads_txt test_world"
    by (simp add: str_test_data)
  from download_file_handler_raises [OF l w1(1)] w1(2) se show ?thesis
    by (simp add: test_world_def world0_def)
qed

text \<open>
  Claim C6. For a leaf entry of a Google Workspace type, \<open>list_all_files\<close> submits
  the job with \<open>.pdf\<close> appended to the name, and the submitted path always
  sanitizes and takes the suffix \<open>.pdf\<close>, which gives a path that ends in
  \<open>.pdf\<close>; for any other leaf entry it submits the
  job with the name as it is. A Workspace job at whose sanitized path nothing stands
  and in which no collaborator fails asks for an export to \<open>application/pdf\<close>, and
  renames the bytes this request delivered to the sanitized path after
  \<open>with_suffix('.pdf')\<close>, which ends in \<open>.pdf\<close>. Such a job of any other type asks
  for the media directly and renames the bytes to the sanitized path itself.
\<close>

theorem conversion_naming:
  "(mimeType it \<noteq> folder_mime \<and> startswith (mimeType it) workspace_prefix \<longrightarrow>
      visit_item env it lp w
        = (Inr (), w\<lparr>submitted_jobs := submitted_jobs w
             @ [(item_id it, os_path_join lp (item_name it @ ''.pdf''), mimeType it)]\<rparr>)
    \<and> (\<exists>S F. sanitize_path (os_path_join lp (item_name it @ ''.pdf'')) = Inr S
            \<and> with_suffix S ''.pdf'' = Inr F \<and> endswith (str_path F) ''.pdf''))
   \<and> (mimeType it \<noteq> folder_mime \<and> \<not> startswith (mimeType it) workspace_prefix \<longrightarrow>
      visit_item env it lp w
        = (Inr (), w\<lparr>submitted_jobs := submitted_jobs w
             @ [(item_id it, os_path_join lp (item_name it), mimeType it)]\<rparr>))
   \<and> (\<forall>S F. startswith mime workspace_prefix
          \<and> sanitize_path fp = Inr S \<and> fs w (str_path S) = None
          \<and> with_suffix S ''.pdf'' = Inr F
          \<and> request_error env (ExportMedia fid ''application/pdf'') = None
          \<and> open_fault env (fs w) (Path (str_path S @ ''.temp'')) = None
          \<and> stream_error (media env (ExportMedia fid ''application/pdf'')) = None
          \<and> rename_fault env
               ((fs w)(str_path S @ ''.temp''
                  \<mapsto> File (stream_written (media env (ExportMedia fid ''application/pdf'')))))
               (str_path S @ ''.temp'') (str_path F) = None
        \<longrightarrow>
          endswith (str_path F) ''.pdf''
        \<and> download_file env fid fp mime w
            = (Inr (),
               w\<lparr>fs := (fs w)(str_path S @ ''.temp'' := None,
                       str_path F
                         \<mapsto> File (stream_written (media env (ExportMedia fid ''application/pdf'')))),
                 calls := calls w @ [Exists (str_path S),
                                     BuildRequest (ExportMedia fid ''application/pdf''),
                                     OpenWb (str_path S @ ''.temp'')]
                     @ chunk_calls (media env (ExportMedia fid ''application/pdf''))
                     @ [Rename (str_path S @ ''.temp'') (str_path F)]\<rparr>))
   \<and> (\<forall>S. \<not> startswith mime workspace_prefix
          \<and> sanitize_path fp = Inr S \<and> fs w (str_path S) = None
          \<and> request_error env (GetMedia fid) = None
          \<and> open_fault env (fs w) (Path (str_path S @ ''.temp'')) = None
          \<and> stream_error (media env (GetMedia fid)) = None
          \<and> rename_fault env
               ((fs w)(str_path S @ ''.temp'' \<mapsto> File (stream_written (media env (GetMedia fid)))))
               (str_path S @ ''.temp'') (str_path S) = None
        \<longrightarrow>
          download_file env fid fp mime w
            = (Inr (),
               w\<lparr>fs := (fs w)(str_path S @ ''.temp'' := None,
                       str_path S \<mapsto> File (stream_written (media env (GetMedia fid)))),
                 calls := calls w @ [Exists (str_path S), BuildRequest (GetMedia fid),
                                     OpenWb (str_path S @ ''.temp'')]
                     @ chunk_calls (media env (GetMedia fid))
                     @ [Rename (str_path S @ ''.temp'') (str_path S)]\<rparr>))"
proof (intro conjI allI impI)
  assume a: "mimeType it \<noteq> folder_mime \<and> startswith (mimeType it) workspace_prefix"
  then show "visit_item env it lp w
        = (Inr (), w\<lparr>submitted_jobs := submitted_jobs w
             @ [(item_id it, os_path_join lp (item_name it @ ''.pdf''), mimeType it)]\<rparr>)"
    by (simp add: visit_item_leaf)
  from workspace_leaf_sanitizes [of lp "item_name it"] obtain S where
    S: "sanitize_path (os_path_join lp (item_name it @ ''.pdf'')) = Inr S" by blast
  from sanitize_path_with_suffix [OF S] obtain F where F: "with_suffix S ''.pdf'' = Inr F"
    by blast
  from with_suffix_pdf_ends [OF F] S F
  show "\<exists>S F. sanitize_path (os_path_join lp (item_name it @ ''.pdf'')) = Inr S
            \<and> with_suffix S ''.pdf'' = Inr F \<and> endswith (str_path F) ''.pdf''" by blast
next
  assume "mimeType it \<noteq> folder_mime \<and> \<not> startswith (mimeType it) workspace_prefix"
  then show "visit_item env it lp w
        = (Inr (), w\<lparr>submitted_jobs := submitted_jobs w
             @ [(item_id it, os_path_join lp (item_name it), mimeType it)]\<rparr>)"
    by (simp add: visit_item_leaf)
next
  fix S F
  assume a: "startswith mime workspace_prefix
          \<and> sanitize_path fp = Inr S \<and> fs w (str_path S) = None
          \<and> with_suffix S ''.pdf'' = Inr F
          \<and> request_error env (ExportMedia fid ''application/pdf'') = None
          \<and> open_fault env (fs w) (Path (str_path S @ ''.temp'')) = None
          \<and> stream_error (media env (ExportMedia fid ''application/pdf'')) = None
          \<and> rename_fault env
               ((fs w)(str_path S @ ''.temp''
                  \<mapsto> File (stream_written (media env (ExportMedia fid ''application/pdf'')))))
               (str_path S @ ''.temp'') (str_path F) = None"
  then have "with_suffix S ''.pdf'' = Inr F" by simp
  then show "endswith (str_path F) ''.pdf''" by (rule with_suffix_pdf_ends)
  from a have g: "fetch_request fid mime = ExportMedia fid ''application/pdf''"
    and F: "final_path S mime = Inr F"
    by (simp_all add: fetch_request_def final_path_def)
  from a show "download_file env fid fp mime w
            = (Inr (),
               w\<lparr>fs := (fs w)(str_path S @ ''.temp'' := None,
                       str_path F
                         \<mapsto> File (stream_written (media env (ExportMedia fid ''application/pdf'')))),
                 calls := calls w @ [Exists (str_path S),
                                     BuildRequest (ExportMedia fid ''application/pdf''),
                                     OpenWb (str_path S @ ''.temp'')]
                     @ chunk_calls (media env (ExportMedia fid ''application/pdf''))
                     @ [Rename (str_path S @ ''.temp'') (str_path F)]\<rparr>)"
    using download_file_stores [of fp S w mime F env fid, unfolded g] F by blast
next
  fix S
  assume a: "\<not> startswith mime workspace_prefix
          \<and> sanitize_path fp = Inr S \<and> fs w (str_path S) = None
          \<and> request_error env (GetMedia fid) = None
          \<and> open_fault env (fs w) (Path (str_path S @ ''.temp'')) = None
          \<and> stream_error (media env (GetMedia fid)) = None
          \<and> rename_fault env
               ((fs w)(str_path S @ ''.temp'' \<mapsto> File (stream_written (media env (GetMedia fid)))))
               (str_path S @ ''.temp'') (str_path S) = None"
  then have g: "fetch_request fid mime = GetMedia fid" and F: "final_path S mime = Inr S"
    by (simp_all add: fetch_request_def final_path_def)
  from a show "download_file env fid fp mime w
            = (Inr (),
               w\<lparr>fs := (fs w)(str_path S @ ''.temp'' := None,
                       str_path S \<mapsto> File (stream_written (media env (GetMedia fid)))),
                 calls := calls w @ [Exists (str_path S), BuildRequest (GetMedia fid),
                                     OpenWb (str_path S @ ''.temp'')]
                     @ chunk_calls (media env (GetMedia fid))
                     @ [Rename (str_path S @ ''.temp'') (str_path S)]\<rparr>)"
    using download_file_stores [of fp S w mime S env fid, unfolded g] F by blast
qed

text \<open>
  The entries \<open>Report\<close>, a Workspace document, and \<open>data.csv\<close>, mirrored into
  \<open>./test\<close>: the jobs submitted, and what each stores.
\<close>

theorem conversion_naming_witness:
  "mimeType (Item ''idR'' ''Report'' ''application/vnd.google-apps.document'' (LastPage [])) \<noteq> folder_mime
   \<and> startswith (mimeType (Item ''idR'' ''Report'' ''application/vnd.google-apps.document'' (LastPage [])))
        workspace_prefix
   \<and> visit_item quiet_env (Item ''idR'' ''Report'' ''application/vnd.google-apps.document'' (LastPage []))
        ''./test'' test_world
       = (Inr (), test_world\<lparr>submitted_jobs :=
            [(''idR'', ''./test/Report.pdf'', ''application/vnd.google-apps.document'')]\<rparr>)
   \<and> sanitize_path ''./test/Report.pdf'' = Inr \<lparr>root = [], parts = [''test'', ''Report.pdf'']\<rparr>
   \<and> with_suffix \<lparr>root = [], parts = [''test'', ''Report.pdf'']\<rparr> ''.pdf''
       = Inr \<lparr>root = [], parts = [''test'', ''Report.pdf'']\<rparr>
   \<and> fs test_world ''test/Report.pdf'' = None
   \<and> download_file quiet_env ''idR'' ''./test/Report.pdf'' ''application/vnd.google-apps.document''
        test_world
       = (Inr (), test_world\<lparr>
            fs := [''test'' \<mapsto> Dir, ''test/Report.pdf'' \<mapsto> File ''x''],
            calls := [Exists ''test/Report.pdf'',
                      BuildRequest (ExportMedia ''idR'' ''application/pdf''),
                      OpenWb ''test/Report.pdf.temp'', NextChunk,
                      Rename ''test/Report.pdf.temp'' ''test/Report.pdf'']\<rparr>)
   \<and> mimeType (Item ''idF'' ''data.csv'' ''text/csv'' (LastPage [])) \<noteq> folder_mime
   \<and> \<not> startswith (mimeType (Item ''idF'' ''data.csv'' ''text/csv'' (LastPage []))) workspace_prefix
   \<and> visit_item quiet_env (Item ''idF'' ''data.csv'' ''text/csv'' (LastPage [])) ''./test'' test_world
       = (Inr (), test_world\<lparr>submitted_jobs := [(''idF'', ''./test/data.csv'', ''text/csv'')]\<rparr>)
   \<and> sanitize_path ''./test/data.csv'' = Inr \<lparr>root = [], parts = [''test'', ''data.csv'']\<rparr>
   \<and> fs test_world ''test/data.csv'' = None
   \<and> download_file quiet_env ''idF'' ''./test/data.csv'' ''text/csv'' test_world
       = (Inr (), test_world\<lparr>
            fs := [''test'' \<mapsto> Dir, ''test/data.csv'' \<mapsto> File ''x''],
            calls := [Exists ''test/data.csv'', BuildRequest (GetMedia ''idF''),
                      OpenWb ''test/data.csv.temp'', NextChunk,
                      Rename ''test/data.csv.temp'' ''test/data.csv'']\<rparr>)"
proof -
  let ?d = "''application/vnd.google-apps.document''"
  let ?R = "\<lparr>root = [], parts = [''test'', ''Report.pdf'']\<rparr>"
  let ?D = "\<lparr>root = [], parts = [''test'', ''data.csv'']\<rparr>"
  have j: "os_path_join ''./test'' ''Report.pdf'' = ''./test/Report.pdf''"
    "os_path_join ''./test'' ''data.csv'' = ''./test/data.csv''"
    by (simp_all add: os_path_join_def startswith_def endswith_def)
  have n: "fs test_world ''test/Report.pdf'' = None" "fs test_world ''test/data.csv'' = None"
    by (simp_all add: test_world_def world0_def)
  have opR: "open_fault quiet_env (fs test_world) (Path ''test/Report.pdf.temp'') = None"
    by (rule open_test_report) (rule quiet_env_simps)
  have opD: "open_fault quiet_env (fs test_world) (Path ''test/data.csv.temp'') = None"
    by (rule open_test_data) (rule quiet_env_simps)
  have rnR: "rename_fault quiet_env ((fs test_world)(''test/Report.pdf.temp'' \<mapsto> File ''x''))
      ''test/Report.pdf.temp'' ''test/Report.pdf'' = None"
    by (simp add: rename_fault_def quiet_env_simps test_world_def world0_def)
  have rnD: "rename_fault quiet_env ((fs test_world)(''test/data.csv.temp'' \<mapsto> File ''x''))
      ''test/data.csv.temp'' ''test/data.csv'' = None"
    by (simp add: rename_fault_def quiet_env_simps test_world_def world0_def)
  have fR: "(fs test_world)(''test/Report.pdf.temp'' := None, ''test/Report.pdf'' \<mapsto> File ''x'')
      = [''test'' \<mapsto> Dir, ''test/Report.pdf'' \<mapsto> File ''x'']"
    by (rule ext) (simp add: test_world_def world0_def)
  have fD: "(fs test_world)(''test/data.csv.temp'' := None, ''test/data.csv'' \<mapsto> File ''x'')
      = [''test'' \<mapsto> Dir, ''test/data.csv'' \<mapsto> File ''x'']"
    by (rule ext) (simp add: test_world_def world0_def)
  have c0: "calls test_world = []" "submitted_jobs test_world = []"
    by (simp_all add: test_world_def world0_def)
  note cR = conversion_naming [of "Item ''idR'' ''Report'' ?d (LastPage [])" quiet_env "''./test''"
      test_world ?d "''./test/Report.pdf''" "''idR''"]
  note cD = conversion_naming [of "Item ''idF'' ''data.csv'' ''text/csv'' (LastPage [])" quiet_env
      "''./test''" test_world "''text/csv''" "''./test/data.csv''" "''idF''"]
  from cR have vR: "visit_item quiet_env (Item ''idR'' ''Report'' ?d (LastPage [])) ''./test'' test_world
       = (Inr (), test_world\<lparr>submitted_jobs := [(''idR'', ''./test/Report.pdf'', ?d)]\<rparr>)"
    by (simp add: doc_mime j c0)
  from cR have "\<forall>S F. sanitize_path ''./test/Report.pdf'' = Inr S \<and> fs test_world (str_path S) = None
          \<and> with_suffix S ''.pdf'' = Inr F
          \<and> open_fault quiet_env (fs test_world) (Path (str_path S @ ''.temp'')) = None
          \<and> rename_fault quiet_env ((fs test_world)(str_path S @ ''.temp'' \<mapsto> File ''x''))
               (str_path S @ ''.temp'') (str_path F) = None
        \<longrightarrow> download_file quiet_env ''idR'' ''./test/Report.pdf'' ?d test_world
            = (Inr (),
               test_world\<lparr>fs := (fs test_world)(str_path S @ ''.temp'' := None, str_path F \<mapsto> File ''x''),
                 calls := [Exists (str_path S), BuildRequest (ExportMedia ''idR'' ''application/pdf''),
                           OpenWb (str_path S @ ''.temp''), NextChunk,
                           Rename (str_path S @ ''.temp'') (str_path F)]\<rparr>)"
    by (simp add: doc_mime quiet_env_simps c0)
  from this [rule_format, of ?R ?R] sanitize_test_report with_suffix_test_report n opR rnR
  have dR: "download_file quiet_env ''idR'' ''./test/Report.pdf'' ?d test_world
       = (Inr (), test_world\<lparr>
            fs := [''test'' \<mapsto> Dir, ''test/Report.pdf'' \<mapsto> File ''x''],
            calls := [Exists ''test/Report.pdf'',
                      BuildRequest (ExportMedia ''idR'' ''application/pdf''),
                      OpenWb ''test/Report.pdf.temp'', NextChunk,
                      Rename ''test/Report.pdf.temp'' ''test/Report.pdf'']\<rparr>)"
    by (simp add: str_test_report fR)
  from cD have vD: "visit_item quiet_env (Item ''idF'' ''data.csv'' ''text/csv'' (LastPage [])) ''./test'' test_world
       = (Inr (), test_world\<lparr>submitted_jobs := [(''idF'', ''./test/data.csv'', ''text/csv'')]\<rparr>)"
    by (simp add: csv_mime j c0)
  from cD have "\<forall>S. sanitize_path ''./test/data.csv'' = Inr S \<and> fs test_world (str_path S) = None
          \<and> open_fault quiet_env (fs test_world) (Path (str_path S @ ''.temp'')) = None
          \<and> rename_fault quiet_env ((fs test_world)(str_path S @ ''.temp'' \<mapsto> File ''x''))
               (str_path S @ ''.temp'') (str_path S) = None
        \<longrightarrow> download_file quiet_env ''idF'' ''./test/data.csv'' ''text/csv'' test_world
            = (Inr (),
               test_world\<lparr>fs := (fs test_world)(str_path S @ ''.temp'' := None, str_path S \<mapsto> File ''x''),
                 calls := [Exists (str_path S), BuildRequest (GetMedia ''idF''),
                           OpenWb (str_path S @ ''.temp''), NextChunk,
                           Rename (str_path S @ ''.temp'') (str_path S)]\<rparr>)"
    by (simp add: csv_mime quiet_env_simps c0)
  from this [rule_format, of ?D] sanitize_test_data n opD rnD
  have dD: "download_file quiet_env ''idF'' ''./test/data.csv'' ''text/csv'' test_world
       = (Inr (), test_world\<lparr>
            fs := [''test'' \<mapsto> Dir, ''test/data.csv'' \<mapsto> File ''x''],
            calls := [Exists ''test/data.csv'', BuildRequest (GetMedia ''idF''),
                      OpenWb ''test/data.csv.temp'', NextChunk,
                      Rename ''test/data.csv.temp'' ''test/data.csv'']\<rparr>)"
    by (simp add: str_test_data fD)
  show ?thesis
    using vR dR vD dD sanitize_test_report with_suffix_test_report sanitize_test_data n
    by (simp add: doc_mime csv_mime)
qed

text \<open>
  Claim C4, at an input where the code departs from it. The existence check looks at
  the sanitized path, the rename goes to that path after \<open>with_suffix\<close>. A folder
  \<open>a\<close> and a Workspace document named \<open>a/\<close> give the job path \<open>./test/a/.pdf\<close>,
  whose name \<open>.pdf\<close> has no suffix: the first run succeeds and stores
  \<open>test/a/.pdf.pdf\<close>, and the second run, finding nothing at \<open>test/a/.pdf\<close>,
  exports the document again.
\<close>

theorem second_run_fetches_again:
  "submitted_jobs (snd (list_all_files quiet_env
       (LastPage [Item ''idA'' ''a'' folder_mime (LastPage []),
                  Item ''idD'' ''a/'' ''application/vnd.google-apps.document'' (LastPage [])])
       ''./test'' test_world))
     = [(''idD'', ''./test/a/.pdf'', ''application/vnd.google-apps.document'')]
   \<and> failed_downloads_txt
        (run_jobs quiet_env [(''idD'', ''./test/a/.pdf'', ''application/vnd.google-apps.document'')]
          (snd (list_all_files quiet_env
             (LastPage [Item ''idA'' ''a'' folder_mime (LastPage []),
                        Item ''idD'' ''a/'' ''application/vnd.google-apps.document'' (LastPage [])])
             ''./test'' test_world))) = []
   \<and> fs (run_jobs quiet_env [(''idD'', ''./test/a/.pdf'', ''application/vnd.google-apps.document'')]
          (snd (list_all_files quiet_env
             (LastPage [Item ''idA'' ''a'' folder_mime (LastPage []),
                        Item ''idD'' ''a/'' ''application/vnd.google-apps.document'' (LastPage [])])
             ''./test'' test_world)))
        ''test/a/.pdf.pdf'' = Some (File ''x'')
   \<and> calls (run_jobs quiet_env [(''idD'', ''./test/a/.pdf'', ''application/vnd.google-apps.document'')]
        (run_jobs quiet_env [(''idD'', ''./test/a/.pdf'', ''application/vnd.google-apps.document'')]
          (snd (list_all_files quiet_env
             (LastPage [Item ''idA'' ''a'' folder_mime (LastPage []),
                        Item ''idD'' ''a/'' ''application/vnd.google-apps.document'' (LastPage [])])
             ''./test'' test_world))))
     = calls (run_jobs quiet_env [(''idD'', ''./test/a/.pdf'', ''application/vnd.google-apps.document'')]
          (snd (list_all_files quiet_env
             (LastPage [Item ''idA'' ''a'' folder_mime (LastPage []),
                        Item ''idD'' ''a/'' ''application/vnd.google-apps.document'' (LastPage [])])
             ''./test'' test_world)))
       @ [Exists ''test/a/.pdf'', BuildRequest (ExportMedia ''idD'' ''application/pdf''),
          OpenWb ''test/a/.pdf.temp'', NextChunk, Rename ''test/a/.pdf.temp'' ''test/a/.pdf.pdf'']"
proof -
  let ?m = "''application/vnd.google-apps.document''"
  let ?w0 = "test_world\<lparr>fs := [''test'' \<mapsto> Dir, ''test/a'' \<mapsto> Dir],
          submitted_jobs := [(''idD'', ''./test/a/.pdf'', ?m)]\<rparr>"
  let ?cs = "[Exists ''test/a/.pdf'', BuildRequest (ExportMedia ''idD'' ''application/pdf''),
            OpenWb ''test/a/.pdf.temp'', NextChunk, Rename ''test/a/.pdf.temp'' ''test/a/.pdf.pdf'']"
  let ?w1 = "?w0\<lparr>fs := (fs ?w0)(''test/a/.pdf.temp'' := None, ''test/a/.pdf.pdf'' \<mapsto> File ''x''),
          calls := calls ?w0 @ ?cs\<rparr>"
  let ?w2 = "?w1\<lparr>fs := (fs ?w1)(''test/a/.pdf.temp'' := None, ''test/a/.pdf.pdf'' \<mapsto> File ''x''),
          calls := calls ?w1 @ ?cs\<rparr>"
  have d1: "download_file quiet_env ''idD'' ''./test/a/.pdf'' ?m ?w0 = (Inr (), ?w1)"
    by (rule download_a_pdf) simp_all
  have d2: "download_file quiet_env ''idD'' ''./test/a/.pdf'' ?m ?w1 = (Inr (), ?w2)"
    by (rule download_a_pdf) simp_all
  have r1: "run_jobs quiet_env [(''idD'', ''./test/a/.pdf'', ?m)] ?w0 = ?w1"
    by (simp only: run_jobs.simps d1 snd_conv)
  have r2: "run_jobs quiet_env [(''idD'', ''./test/a/.pdf'', ?m)] ?w1 = ?w2"
    by (simp only: run_jobs.simps d2 snd_conv)
  show ?thesis
    unfolding traversal_a snd_conv r1 r2 by (simp add: test_world_def world0_def)
qed

section \<open>The failure recorder: results\<close>

text \<open>
  Claim C9, at an input where the code departs from it. The steps of
  \<open>write_failed_downloads\<close> do not acquire \<open>WRITE_LOCK\<close>, so when two jobs fail
  concurrently the steps of their appends interleave freely: in the schedule below
  the second thread opens the log and writes while the first has it open.
\<close>

theorem failure_log_unguarded:
  "Acquire_WRITE_LOCK \<notin> set (write_failed_downloads_steps ''id1'' ''./test/a.bin'' ''timed out'')
   \<and> [(1, Open_append ''./failed_downloads.txt''),
       (2, Open_append ''./failed_downloads.txt''),
       (1, Write_line (failure_line ''id1'' ''./test/a.bin'' ''timed out'')),
       (2, Write_line (failure_line ''id2'' ''./test/b.bin'' ''timed out'')),
       (1, Close_file),
       (2, Close_file)]
      \<in> set (interleavings
            (thread_steps 1 (write_failed_downloads_steps ''id1'' ''./test/a.bin'' ''timed out''))
            (thread_steps 2 (write_failed_downloads_steps ''id2'' ''./test/b.bin'' ''timed out'')))
   \<and> \<not> exclusive None
        [(1, Open_append ''./failed_downloads.txt''),
         (2, Open_append ''./failed_downloads.txt''),
         (1, Write_line (failure_line ''id1'' ''./test/a.bin'' ''timed out'')),
         (2, Write_line (failure_line ''id2'' ''./test/b.bin'' ''timed out'')),
         (1, Close_file),
         (2, Close_file)]"
  by (simp add: write_failed_downloads_steps_def thread_steps_def)

end
